theory Spec2Isabelle
  imports Complex_Main "HOL-Library.Word" "HOL-Library.Monad_Syntax"
begin

unbundle bit_operations_syntax

section \<open>Numeric model\<close>

text \<open>
  Two models of the C++ type \<open>float\<close> are used.

  The exact model takes a finite floating-point value as a \<^typ>\<open>real\<close> and \<open>+\<close>, \<open>-\<close>,
  \<open>*\<close>, \<open>/\<close> without rounding. It carries the properties that do not depend on
  rounding: which cells \<open>dequant\<close> writes, the zero inclusion of \<open>CheckMinMax\<close> and the
  zero-point of the symmetric \<open>GetQuantParams\<close>.

  The binary32 model (type \<open>f32\<close> below) rounds the result of every operation to the
  nearest binary32 value, ties to even, with gradual underflow, overflow to an infinity
  and NaN. Every other property is stated in it. The sign of a zero is not tracked;
  the only divisions whose divisor can be a zero are guarded in the source or shown to
  have a non-zero divisor. Each C++ expression is taken as written, one rounding per
  operation, and the template parameter \<open>T\<close> of the block codec is \<open>float\<close>.

  The conversions between integers and floating point are written out, since they
  change values at the integer level.
\<close>

type_synonym u8 = "8 word"

text \<open>\<open>roundf\<close> and \<open>std::round\<close>: the nearest integer, halfway cases away from zero.\<close>

definition roundf :: "real \<Rightarrow> real" where
  "roundf x = (if 0 \<le> x then of_int \<lfloor>x + 1 / 2\<rfloor> else of_int \<lceil>x - 1 / 2\<rceil>)"

text \<open>Conversion of a floating-point value to an integer type drops the fraction.\<close>

definition trunc :: "real \<Rightarrow> int" where
  "trunc x = (if 0 \<le> x then \<lfloor>x\<rfloor> else \<lceil>x\<rceil>)"

text \<open>
  \<open>static_cast<int>(x)\<close> and \<open>static_cast<int32_t>(x)\<close>. When the truncated value does
  not fit in 32 bits the C++ result is undefined; \<open>ub\<close> is the value the platform
  produces in that call, and is a parameter of every function that converts.
\<close>

definition static_cast_int32 :: "int \<Rightarrow> real \<Rightarrow> int" where
  "static_cast_int32 ub x =
     (let t = trunc x in if - 2147483648 \<le> t \<and> t \<le> 2147483647 then t else ub)"

text \<open>\<open>(uint8_t) x\<close>; every call site passes a value already clamped into \<open>[0, 15]\<close>.\<close>

definition static_cast_uint8 :: "real \<Rightarrow> u8" where
  "static_cast_uint8 x = word_of_int (trunc x)"

text \<open>32-bit signed subtraction, two's complement wrap-around written out.\<close>

definition wrap_int32 :: "int \<Rightarrow> int" where
  "wrap_int32 x = (x + 2147483648) mod 4294967296 - 2147483648"

text \<open>
  Modelled from the spec: \<open>RoundHalfToEven\<close> is declared in \<open>core/util/qmath.h\<close>, which
  is not among the sources; the specification says the zero-point is "rounded
  half-to-even".
\<close>

definition RoundHalfToEven :: "real \<Rightarrow> real" where
  "RoundHalfToEven x =
     (let f = \<lfloor>x\<rfloor>; d = x - of_int f in
      if d < 1 / 2 then of_int f
      else if 1 / 2 < d then of_int (f + 1)
      else if even f then of_int f else of_int (f + 1))"

text \<open>
  \<open>static_cast<float>(n)\<close> for an integer \<open>n\<close>: binary32 has a 24-bit significand, so
  integers of magnitude below \<open>2^24\<close> are exact and larger ones are rounded to the
  nearest multiple of the spacing \<open>float_ulp\<close>, ties to even.
\<close>

function float_ulp :: "nat \<Rightarrow> nat" where
  "float_ulp m = (if m < 16777216 then 1 else 2 * float_ulp (m div 2))"
  by pat_completeness auto
termination
  by (relation "measure id") auto

definition static_cast_float :: "int \<Rightarrow> real" where
  "static_cast_float n =
     (let u = real (float_ulp (nat \<bar>n\<bar>)) in u * RoundHalfToEven (of_int n / u))"

subsection \<open>binary32\<close>

text \<open>
  The spacing of the binary32 values around a magnitude \<open>a\<close>: the least
  \<open>u = 2^j / 2^149\<close> with \<open>a < 2^24 * u\<close>, found by doubling from the spacing \<open>2^-149\<close> of
  the subnormal numbers. The fuel covers every quotient and product of two finite
  binary32 values; at a larger magnitude the rounded value overflows whatever the
  spacing.
\<close>

primrec ulp_search :: "nat \<Rightarrow> real \<Rightarrow> real \<Rightarrow> real" where
  "ulp_search 0 u a = u"
| "ulp_search (Suc n) u a = (if a < 16777216 * u then u else ulp_search n (2 * u) a)"

definition f32_ulp :: "real \<Rightarrow> real" where
  "f32_ulp x = ulp_search 277 (1 / 2 ^ 149) \<bar>x\<bar>"

text \<open>Rounding to nearest, ties to even, with an unbounded exponent.\<close>

definition fl32 :: "real \<Rightarrow> real" where
  "fl32 x = (let u = f32_ulp x in u * RoundHalfToEven (x / u))"

datatype f32 = Fin real | PInf | NInf | NaN

text \<open>The binary32 result of an operation whose exact result is \<open>x\<close>.\<close>

definition f32_round :: "real \<Rightarrow> f32" where
  "f32_round x =
     (let y = fl32 x in
      if \<bar>y\<bar> < 2 ^ 128 then Fin y else if 0 < x then PInf else NInf)"

fun f32_neg :: "f32 \<Rightarrow> f32" where
  "f32_neg (Fin a) = Fin (- a)"
| "f32_neg PInf = NInf"
| "f32_neg NInf = PInf"
| "f32_neg NaN = NaN"

fun f32_add :: "f32 \<Rightarrow> f32 \<Rightarrow> f32" where
  "f32_add (Fin a) (Fin b) = f32_round (a + b)"
| "f32_add NaN y = NaN"
| "f32_add x NaN = NaN"
| "f32_add PInf NInf = NaN"
| "f32_add NInf PInf = NaN"
| "f32_add PInf y = PInf"
| "f32_add x PInf = PInf"
| "f32_add NInf y = NInf"
| "f32_add x NInf = NInf"

definition f32_sub :: "f32 \<Rightarrow> f32 \<Rightarrow> f32" where
  "f32_sub x y = f32_add x (f32_neg y)"

fun f32_negative :: "f32 \<Rightarrow> bool" where
  "f32_negative (Fin a) = (a < 0)"
| "f32_negative NInf = True"
| "f32_negative x = False"

fun f32_is_zero :: "f32 \<Rightarrow> bool" where
  "f32_is_zero (Fin a) = (a = 0)"
| "f32_is_zero x = False"

definition f32_signed_inf :: "bool \<Rightarrow> f32" where
  "f32_signed_inf negative = (if negative then NInf else PInf)"

fun f32_mul :: "f32 \<Rightarrow> f32 \<Rightarrow> f32" where
  "f32_mul (Fin a) (Fin b) = f32_round (a * b)"
| "f32_mul NaN y = NaN"
| "f32_mul x NaN = NaN"
| "f32_mul x y =
     (if f32_is_zero x \<or> f32_is_zero y then NaN
      else f32_signed_inf (f32_negative x \<noteq> f32_negative y))"

fun f32_div :: "f32 \<Rightarrow> f32 \<Rightarrow> f32" where
  "f32_div NaN y = NaN"
| "f32_div x NaN = NaN"
| "f32_div (Fin a) (Fin b) =
     (if b = 0 then (if a = 0 then NaN else f32_signed_inf (a < 0))
      else f32_round (a / b))"
| "f32_div (Fin a) y = Fin 0"
| "f32_div x (Fin b) = f32_signed_inf (f32_negative x \<noteq> (b < 0))"
| "f32_div x y = NaN"

text \<open>\<open>x < y\<close>; every comparison with a NaN is false.\<close>

fun f32_less :: "f32 \<Rightarrow> f32 \<Rightarrow> bool" where
  "f32_less NaN y = False"
| "f32_less x NaN = False"
| "f32_less (Fin a) (Fin b) = (a < b)"
| "f32_less NInf NInf = False"
| "f32_less NInf y = True"
| "f32_less x PInf = (x \<noteq> PInf)"
| "f32_less x y = False"

text \<open>\<open>std::max(a, b)\<close> is \<open>(a < b) ? b : a\<close> and \<open>std::min(a, b)\<close> is \<open>(b < a) ? b : a\<close>.\<close>

definition f32_max :: "f32 \<Rightarrow> f32 \<Rightarrow> f32" where
  "f32_max a b = (if f32_less a b then b else a)"

definition f32_min :: "f32 \<Rightarrow> f32 \<Rightarrow> f32" where
  "f32_min a b = (if f32_less b a then b else a)"

fun f32_abs :: "f32 \<Rightarrow> f32" where
  "f32_abs (Fin a) = Fin \<bar>a\<bar>"
| "f32_abs NInf = PInf"
| "f32_abs x = x"

text \<open>\<open>roundf\<close> and \<open>std::round\<close> on \<open>float\<close>; the result of a finite value is exact.\<close>

fun f32_roundf :: "f32 \<Rightarrow> f32" where
  "f32_roundf (Fin a) = Fin (roundf a)"
| "f32_roundf x = x"

text \<open>Modelled from the spec: \<open>RoundHalfToEven\<close> on \<open>float\<close>, as above.\<close>

fun f32_RoundHalfToEven :: "f32 \<Rightarrow> f32" where
  "f32_RoundHalfToEven (Fin a) = Fin (RoundHalfToEven a)"
| "f32_RoundHalfToEven x = x"

text \<open>\<open>static_cast<int32_t>(x)\<close>; undefined for a NaN or an infinity as well.\<close>

fun static_cast_int32_f32 :: "int \<Rightarrow> f32 \<Rightarrow> int" where
  "static_cast_int32_f32 ub (Fin x) = static_cast_int32 ub x"
| "static_cast_int32_f32 ub x = ub"

text \<open>
  \<open>(uint8_t) x\<close>: \<open>None\<close> where the C++ conversion is undefined (the truncated value is
  not in \<open>0..255\<close>, or \<open>x\<close> is not finite).
\<close>

fun static_cast_uint8_f32 :: "f32 \<Rightarrow> u8 option" where
  "static_cast_uint8_f32 (Fin x) =
     (if 0 \<le> trunc x \<and> trunc x \<le> 255 then Some (word_of_int (trunc x)) else None)"
| "static_cast_uint8_f32 x = None"

text \<open>A value that converts to \<open>true\<close>: anything but a zero.\<close>

definition f32_nonzero :: "f32 \<Rightarrow> bool" where
  "f32_nonzero x = (x \<noteq> Fin 0)"

section \<open>Quantization parameters (qnn_utils.cc)\<close>

text \<open>
  \<open>Qnn_DataType_t\<close> comes from the QNN SDK header \<open>QnnTypes.h\<close>; the constructors are
  the enumerators that the source names.
\<close>

datatype Qnn_DataType_t =
    QNN_DATATYPE_INT_8 | QNN_DATATYPE_INT_16 | QNN_DATATYPE_INT_32 | QNN_DATATYPE_INT_64
  | QNN_DATATYPE_UINT_8 | QNN_DATATYPE_UINT_16 | QNN_DATATYPE_UINT_32 | QNN_DATATYPE_UINT_64
  | QNN_DATATYPE_FLOAT_16 | QNN_DATATYPE_FLOAT_32
  | QNN_DATATYPE_SFIXED_POINT_4 | QNN_DATATYPE_SFIXED_POINT_8
  | QNN_DATATYPE_SFIXED_POINT_16 | QNN_DATATYPE_SFIXED_POINT_32
  | QNN_DATATYPE_UFIXED_POINT_4 | QNN_DATATYPE_UFIXED_POINT_8
  | QNN_DATATYPE_UFIXED_POINT_16 | QNN_DATATYPE_UFIXED_POINT_32
  | QNN_DATATYPE_BOOL_8

text \<open>The failing \<open>Status\<close> of \<open>ORT_RETURN_IF(true, "Qnn Data Type: %d not supported yet.", ...)\<close>.\<close>

datatype error = NotSupportedYet Qnn_DataType_t

definition CheckMinMax :: "real \<Rightarrow> real \<Rightarrow> real \<times> real" where
  "CheckMinMax rmin rmax =
     (let rmax1 = max rmax (rmin + 0.0001);
          rmin2 = min rmin 0;
          rmax2 = max rmax1 0
      in (rmin2, rmax2))"

text \<open>
  \<open>GetQminQmax<T>\<close>: \<open>cast\<close> is \<open>static_cast<T>\<close> on the integer limits, \<^term>\<open>id\<close> for
  \<open>T = int\<close> and \<^const>\<open>static_cast_float\<close> for \<open>T = float\<close>. On success the two output
  parameters are returned as a pair; on failure they are not assigned.
\<close>

definition GetQminQmax :: "(int \<Rightarrow> 'a) \<Rightarrow> Qnn_DataType_t \<Rightarrow> error + ('a \<times> 'a)" where
  "GetQminQmax cast qnn_data_type =
     (if qnn_data_type = QNN_DATATYPE_SFIXED_POINT_8 then Inr (cast (- 128), cast 127)
      else if qnn_data_type = QNN_DATATYPE_UFIXED_POINT_8 then Inr (cast 0, cast 255)
      else if qnn_data_type = QNN_DATATYPE_SFIXED_POINT_16 then Inr (cast (- 32768), cast 32767)
      else if qnn_data_type = QNN_DATATYPE_UFIXED_POINT_16 then Inr (cast 0, cast 65535)
      else if qnn_data_type = QNN_DATATYPE_SFIXED_POINT_32
        then Inr (cast (- 2147483648), cast 2147483647)
      else Inl (NotSupportedYet qnn_data_type))"

definition Saturate :: "'a::linorder \<Rightarrow> 'a \<Rightarrow> 'a \<Rightarrow> 'a" where
  "Saturate qmax qmin quant_value =
     (if quant_value > qmax then qmax
      else if quant_value < qmin then qmin
      else quant_value)"

text \<open>
  \<open>GetQuantParams\<close>: the reference parameters \<open>scale\<close> and \<open>zero_point\<close> are the result
  pair. \<open>rmin\<close> and \<open>rmax\<close> are reassigned twice in the source; the model names each
  version.
\<close>

definition GetQuantParams ::
    "int \<Rightarrow> real \<Rightarrow> real \<Rightarrow> Qnn_DataType_t \<Rightarrow> bool \<Rightarrow> error + (real \<times> int)" where
  "GetQuantParams ub rmin0 rmax0 qnn_data_type symmetric =
     (let (rmin1, rmax1) = CheckMinMax rmin0 rmax0;
          abs_max = max \<bar>rmax1\<bar> \<bar>rmin1\<bar>;
          rmax = (if symmetric then abs_max else rmax1);
          rmin = (if symmetric then - abs_max else rmin1)
      in case GetQminQmax static_cast_float qnn_data_type of
           Inl e \<Rightarrow> Inl e
         | Inr (qmin, qmax) \<Rightarrow>
             let scale = (rmax - rmin) / (qmax - qmin);
                 initial_zero_point =
                   (if symmetric then roundf (rmin + rmax) / 2 else qmin - rmin / scale);
                 zero_point =
                   static_cast_int32 ub (RoundHalfToEven (Saturate qmax qmin initial_zero_point))
             in Inr (scale, wrap_int32 (0 - zero_point)))"

text \<open>
  The same two functions in binary32. \<open>0.0001f\<close> is the decimal rounded to binary32;
  \<open>abs\<close> is taken as the absolute value of a \<open>float\<close>, \<open>static_cast<float>\<close> of an integer
  limit as its binary32 rounding. \<open>Saturate<float>\<close> compares with \<open>>\<close> and \<open><\<close>, so it
  returns a NaN unchanged.
\<close>

definition CheckMinMax_f32 :: "f32 \<Rightarrow> f32 \<Rightarrow> f32 \<times> f32" where
  "CheckMinMax_f32 rmin rmax =
     (let rmax1 = f32_max rmax (f32_add rmin (f32_round 0.0001));
          rmin2 = f32_min rmin (Fin 0);
          rmax2 = f32_max rmax1 (Fin 0)
      in (rmin2, rmax2))"

definition Saturate_f32 :: "f32 \<Rightarrow> f32 \<Rightarrow> f32 \<Rightarrow> f32" where
  "Saturate_f32 qmax qmin quant_value =
     (if f32_less qmax quant_value then qmax
      else if f32_less quant_value qmin then qmin
      else quant_value)"

definition GetQuantParams_f32 ::
    "int \<Rightarrow> f32 \<Rightarrow> f32 \<Rightarrow> Qnn_DataType_t \<Rightarrow> bool \<Rightarrow> error + (f32 \<times> int)" where
  "GetQuantParams_f32 ub rmin0 rmax0 qnn_data_type symmetric =
     (let (rmin1, rmax1) = CheckMinMax_f32 rmin0 rmax0;
          abs_max = f32_max (f32_abs rmax1) (f32_abs rmin1);
          rmax = (if symmetric then abs_max else rmax1);
          rmin = (if symmetric then f32_neg abs_max else rmin1)
      in case GetQminQmax (\<lambda>n. f32_round (of_int n)) qnn_data_type of
           Inl e \<Rightarrow> Inl e
         | Inr (qmin, qmax) \<Rightarrow>
             let scale = f32_div (f32_sub rmax rmin) (f32_sub qmax qmin);
                 initial_zero_point =
                   (if symmetric then f32_div (f32_roundf (f32_add rmin rmax)) (Fin 2)
                    else f32_sub qmin (f32_div rmin scale));
                 zero_point =
                   static_cast_int32_f32 ub
                     (f32_RoundHalfToEven (Saturate_f32 qmax qmin initial_zero_point))
             in Inr (scale, wrap_int32 (0 - zero_point)))"

text \<open>
  \<open>Quantize\<close> computes in \<open>double\<close>; the quotient and the difference are taken exactly.
  With \<open>scale = 0\<close> the quotient in the source is an infinity or NaN, whose conversion
  to \<open>int\<close> is undefined like that of any other value out of range.
\<close>

definition Quantize :: "int \<Rightarrow> real \<Rightarrow> real \<Rightarrow> int \<Rightarrow> Qnn_DataType_t \<Rightarrow> error + int" where
  "Quantize ub double_value scale zero_point qnn_data_type =
     (case GetQminQmax id qnn_data_type of
        Inl e \<Rightarrow> Inl e
      | Inr (qmin, qmax) \<Rightarrow>
          Inr (Saturate qmax qmin
                 (if scale = 0 then ub
                  else static_cast_int32 ub (roundf (double_value / scale - of_int zero_point)))))"

text \<open>The target types for which \<open>GetQminQmax\<close> has a branch.\<close>

definition fixed_point_types :: "Qnn_DataType_t list" where
  "fixed_point_types =
     [QNN_DATATYPE_SFIXED_POINT_8, QNN_DATATYPE_UFIXED_POINT_8, QNN_DATATYPE_SFIXED_POINT_16,
      QNN_DATATYPE_UFIXED_POINT_16, QNN_DATATYPE_SFIXED_POINT_32]"


section \<open>The 4-bit block codec (blockwise_quant_block.h)\<close>

text \<open>
  \<open>BlockwiseQuantBlock<T, block_size, 4>\<close> holds \<open>uint8_t main_blob[block_size / 2]\<close>;
  the model passes \<open>block_size\<close> (a template parameter with
  \<open>static_assert(block_size % 8 == 0)\<close>) and the array as a list of that length. Only
  this specialization has function bodies in the source; the ones for 3, 5, 6 and 7
  bits are declarations.

  A destination pointer \<open>T* dst\<close> is a buffer with an offset into it; a write outside
  the buffer, or an access outside \<open>main_blob\<close>, makes the result \<open>None\<close>. The source
  pointer \<open>const T* src\<close> is the function from an index \<open>j\<close> to the value \<open>src[j]\<close>.
\<close>

definition load :: "'a list \<Rightarrow> nat \<Rightarrow> 'a option" where
  "load xs i = (if i < length xs then Some (xs ! i) else None)"

definition store :: "'a list \<Rightarrow> nat \<Rightarrow> 'a \<Rightarrow> 'a list option" where
  "store xs i v = (if i < length xs then Some (xs[i := v]) else None)"

text \<open>The loop \<open>for (int i = 0; i < block_size; i += 2)\<close> of \<open>dequant\<close>, from \<open>i\<close> on.\<close>

function dequant_loop ::
    "nat \<Rightarrow> u8 list \<Rightarrow> real \<Rightarrow> u8 \<Rightarrow> int \<Rightarrow> int \<Rightarrow> nat \<Rightarrow> nat \<Rightarrow> real list
       \<Rightarrow> real list option" where
  "dequant_loop block_size main_blob scale zp k_idx K dst_off i dst =
     (if i < block_size then
        do {
          let zp_t = real (unat zp);
          dst1 \<leftarrow> (if k_idx + int i < K then
                    do {
                      b \<leftarrow> load main_blob (i div 2);
                      let x0 = real (unat (b AND 0xF));
                      store dst (dst_off + i) (scale * (x0 - zp_t))
                    }
                  else Some dst);
          dst2 \<leftarrow> (if k_idx + int i + 1 < K then
                    do {
                      b \<leftarrow> load main_blob (i div 2);
                      let x1 = real (unat (drop_bit 4 b));
                      store dst1 (dst_off + (i + 1)) (scale * (x1 - zp_t))
                    }
                  else Some dst1);
          dequant_loop block_size main_blob scale zp k_idx K dst_off (i + 2) dst2
        }
      else Some dst)"
  by pat_completeness auto
termination
  by (relation "measure (\<lambda>(block_size, main_blob, scale, zp, k_idx, K, dst_off, i, dst).
        block_size - i)") auto

text \<open>\<open>dequant(dst, scale, zp, k_idx, K)\<close>.\<close>

definition dequant_zp ::
    "nat \<Rightarrow> u8 list \<Rightarrow> real list \<Rightarrow> nat \<Rightarrow> real \<Rightarrow> u8 \<Rightarrow> int \<Rightarrow> int \<Rightarrow> real list option" where
  "dequant_zp block_size main_blob dst dst_off scale zp k_idx K =
     dequant_loop block_size main_blob scale zp k_idx K dst_off 0 dst"

text \<open>\<open>dequant(dst, scale, k_idx, K)\<close>, with the constant zero-point 8.\<close>

definition dequant ::
    "nat \<Rightarrow> u8 list \<Rightarrow> real list \<Rightarrow> nat \<Rightarrow> real \<Rightarrow> int \<Rightarrow> int \<Rightarrow> real list option" where
  "dequant block_size main_blob dst dst_off scale k_idx K =
     (let zp = 8 in dequant_zp block_size main_blob dst dst_off scale zp k_idx K)"

text \<open>
  In the packing loops \<open>for (size_t kk = 0; kk < klen; kk += 2)\<close> the \<open>int32_t klen\<close> is
  converted to the 64-bit unsigned \<open>size_t\<close> for the comparison.
\<close>

definition size_t_of_int32 :: "int \<Rightarrow> nat" where
  "size_t_of_int32 n = (if n < 0 then nat (n + 18446744073709551616) else nat n)"

text \<open>
  The packing loop shared by both \<open>quant\<close> overloads, from \<open>kk\<close> on; \<open>vi0\<close> and \<open>vi1\<close>
  are the two nibbles that the loop body computes at \<open>kk\<close>.
\<close>

function pack_loop ::
    "(nat \<Rightarrow> u8) \<Rightarrow> (nat \<Rightarrow> u8) \<Rightarrow> nat \<Rightarrow> nat \<Rightarrow> u8 list \<Rightarrow> u8 list option" where
  "pack_loop vi0 vi1 klen kk main_blob =
     (if kk < klen then
        do {
          blob1 \<leftarrow> store main_blob (kk div 2) (vi0 kk OR push_bit 4 (vi1 kk));
          pack_loop vi0 vi1 klen (kk + 2) blob1
        }
      else Some main_blob)"
  by pat_completeness auto
termination
  by (relation "measure (\<lambda>(vi0, vi1, klen, kk, main_blob). klen - kk)") auto


text \<open>Element \<open>i\<close> of a packed block: the low nibble of byte \<open>i div 2\<close> for even \<open>i\<close>, the high one for odd \<open>i\<close>.\<close>

definition nibble :: "u8 list \<Rightarrow> nat \<Rightarrow> u8" where
  "nibble main_blob i =
     (if even i then main_blob ! (i div 2) AND 0xF else drop_bit 4 (main_blob ! (i div 2)))"


subsection \<open>The codec in binary32\<close>

text \<open>
  \<open>dequant\<close> with \<open>T = float\<close>: the same loop, storing the rounded product
  \<open>scale * (x - zp_t)\<close>.
\<close>

function dequant_loop_f32 ::
    "nat \<Rightarrow> u8 list \<Rightarrow> f32 \<Rightarrow> u8 \<Rightarrow> int \<Rightarrow> int \<Rightarrow> nat \<Rightarrow> nat \<Rightarrow> f32 list
       \<Rightarrow> f32 list option" where
  "dequant_loop_f32 block_size main_blob scale zp k_idx K dst_off i dst =
     (if i < block_size then
        do {
          let zp_t = Fin (real (unat zp));
          dst1 \<leftarrow> (if k_idx + int i < K then
                    do {
                      b \<leftarrow> load main_blob (i div 2);
                      let x0 = Fin (real (unat (b AND 0xF)));
                      store dst (dst_off + i) (f32_mul scale (f32_sub x0 zp_t))
                    }
                  else Some dst);
          dst2 \<leftarrow> (if k_idx + int i + 1 < K then
                    do {
                      b \<leftarrow> load main_blob (i div 2);
                      let x1 = Fin (real (unat (drop_bit 4 b)));
                      store dst1 (dst_off + (i + 1)) (f32_mul scale (f32_sub x1 zp_t))
                    }
                  else Some dst1);
          dequant_loop_f32 block_size main_blob scale zp k_idx K dst_off (i + 2) dst2
        }
      else Some dst)"
  by pat_completeness auto
termination
  by (relation "measure (\<lambda>(block_size, main_blob, scale, zp, k_idx, K, dst_off, i, dst).
        block_size - i)") auto

definition dequant_zp_f32 ::
    "nat \<Rightarrow> u8 list \<Rightarrow> f32 list \<Rightarrow> nat \<Rightarrow> f32 \<Rightarrow> u8 \<Rightarrow> int \<Rightarrow> int \<Rightarrow> f32 list option" where
  "dequant_zp_f32 block_size main_blob dst dst_off scale zp k_idx K =
     dequant_loop_f32 block_size main_blob scale zp k_idx K dst_off 0 dst"

definition dequant_f32 ::
    "nat \<Rightarrow> u8 list \<Rightarrow> f32 list \<Rightarrow> nat \<Rightarrow> f32 \<Rightarrow> int \<Rightarrow> int \<Rightarrow> f32 list option" where
  "dequant_f32 block_size main_blob dst dst_off scale k_idx K =
     (let zp = 8 in dequant_zp_f32 block_size main_blob dst dst_off scale zp k_idx K)"

text \<open>
  \<open>(uint8_t)std::min(15.0f, std::max(0.0f, x))\<close>. The clamped value is finite and in
  \<open>[0, 15]\<close> for every \<open>x\<close>, a NaN included (lemma \<open>clamp_finite\<close>), so the conversion is
  defined and the last case is never taken.
\<close>

definition clamp_nibble :: "f32 \<Rightarrow> u8" where
  "clamp_nibble x =
     (case f32_min (Fin 15) (f32_max (Fin 0) x) of
        Fin c \<Rightarrow> static_cast_uint8 c
      | _ \<Rightarrow> 0)"

text \<open>\<open>scale ? 1.0f / scale : 0.0f\<close>.\<close>

definition reciprocal :: "f32 \<Rightarrow> f32" where
  "reciprocal scale = (if f32_nonzero scale then f32_div (Fin 1) scale else Fin 0)"

text \<open>The first loop of the asymmetric \<open>quant\<close>: minimum and maximum of the block.\<close>

definition quant_minmax :: "(int \<Rightarrow> f32) \<Rightarrow> int \<Rightarrow> int \<Rightarrow> f32 \<times> f32" where
  "quant_minmax src N klen =
     fold (\<lambda>kk (mn, mx).
             let v = src (N * int kk)
             in (if f32_less v mn then v else mn, if f32_less mx v then v else mx))
       [0..<nat klen] (src 0, src 0)"

text \<open>
  \<open>quant(src, scale_block, zp, k_idx, K, N)\<close>, the asymmetric overload. The result is
  the new \<open>main_blob\<close> with the two reference parameters \<open>scale_block\<close> and \<open>zp\<close>.
\<close>

definition quant_zp ::
    "nat \<Rightarrow> u8 list \<Rightarrow> (int \<Rightarrow> f32) \<Rightarrow> int \<Rightarrow> int \<Rightarrow> int \<Rightarrow> (u8 list \<times> f32 \<times> u8) option" where
  "quant_zp block_size main_blob src k_idx K N =
     (let klen = min (int block_size) (K - k_idx);
          (min0, max0) = quant_minmax src N klen;
          min1 = f32_min min0 (Fin 0);
          max1 = f32_max max0 (Fin 0);
          scale = f32_div (f32_sub max1 min1) (Fin 15);
          reciprocal_scale = reciprocal scale;
          zero_point_fp =
            (if f32_nonzero scale then f32_sub (Fin 0) (f32_div min1 scale) else min1);
          klen_u = size_t_of_int32 klen
      in do {
           zp \<leftarrow> (if f32_less zero_point_fp (Fin 0) then Some 0
                  else if f32_less (Fin 15) zero_point_fp then Some 15
                  else static_cast_uint8_f32 (f32_roundf zero_point_fp));
           blob \<leftarrow>
             pack_loop
               (\<lambda>kk. clamp_nibble
                       (f32_roundf (f32_add (f32_mul (src (N * int kk)) reciprocal_scale)
                                      (Fin (real (unat zp))))))
               (\<lambda>kk. clamp_nibble
                       (f32_roundf
                          (f32_add
                             (f32_mul (if kk + 1 < klen_u then src (N * int (kk + 1)) else Fin 0)
                                reciprocal_scale)
                             (Fin (real (unat zp))))))
               klen_u 0 main_blob;
           Some (blob, scale, zp)
         })"

text \<open>The first loop of the symmetric \<open>quant\<close>: the value of largest magnitude.\<close>

definition quant_amax :: "(int \<Rightarrow> f32) \<Rightarrow> int \<Rightarrow> int \<Rightarrow> f32 \<times> f32" where
  "quant_amax src N klen =
     fold (\<lambda>kk (amax, mx).
             let v = src (N * int kk)
             in if f32_less amax (f32_abs v) then (f32_abs v, v) else (amax, mx))
       [0..<nat klen] (Fin 0, Fin 0)"

text \<open>\<open>quant(src, scale_block, k_idx, K, N)\<close>, the symmetric overload.\<close>

definition quant ::
    "nat \<Rightarrow> u8 list \<Rightarrow> (int \<Rightarrow> f32) \<Rightarrow> int \<Rightarrow> int \<Rightarrow> int \<Rightarrow> (u8 list \<times> f32) option" where
  "quant block_size main_blob src k_idx K N =
     (let klen = min (int block_size) (K - k_idx);
          (amax, max0) = quant_amax src N klen;
          scale = f32_div max0 (Fin (- 8));
          reciprocal_scale = reciprocal scale;
          klen_u = size_t_of_int32 klen
      in do {
           blob \<leftarrow>
             pack_loop
               (\<lambda>kk. clamp_nibble (f32_add (f32_mul (src (N * int kk)) reciprocal_scale) (Fin 8.5)))
               (\<lambda>kk. clamp_nibble
                       (f32_add
                          (if kk + 1 < klen_u then f32_mul (src (N * int (kk + 1))) reciprocal_scale
                           else Fin 0)
                          (Fin 8.5)))
               klen_u 0 main_blob;
           Some (blob, scale)
         })"

text \<open>Source blocks used as concrete inputs.\<close>

definition zero_src :: "int \<Rightarrow> f32" where
  "zero_src j = Fin 0"

definition unit_src :: "int \<Rightarrow> f32" where
  "unit_src j = (if j = 0 then Fin 1 else Fin 0)"

definition half_src :: "int \<Rightarrow> f32" where
  "half_src j = (if j = 0 then Fin 1 else if j = 1 then Fin (5 / 16) else Fin 0)"

definition tiny_src :: "int \<Rightarrow> f32" where
  "tiny_src j = (if j = 0 then Fin (- (1 / 2 ^ 140)) else if j = 1 then Fin (1 / 2 ^ 140) else Fin 0)"


section \<open>Properties of the quantization parameters\<close>

lemma float_ulp_small: "m < 16777216 \<Longrightarrow> float_ulp m = 1"
  by (subst float_ulp.simps) simp

lemma RoundHalfToEven_of_int: "RoundHalfToEven (of_int n) = of_int n"
  by (simp add: RoundHalfToEven_def)

lemma static_cast_float_small: "\<bar>n\<bar> < 16777216 \<Longrightarrow> static_cast_float n = of_int n"
proof -
  assume "\<bar>n\<bar> < 16777216"
  then have "nat \<bar>n\<bar> < 16777216" by linarith
  then show ?thesis
    by (simp add: static_cast_float_def float_ulp_small RoundHalfToEven_of_int del: float_ulp.simps)
qed

lemma float_ulp_double: "16777216 \<le> m \<Longrightarrow> float_ulp m = 2 * float_ulp (m div 2)"
  by (subst float_ulp.simps) simp

lemma float_ulp_int32_max: "float_ulp 2147483647 = 128"
  by (simp add: float_ulp_double float_ulp_small del: float_ulp.simps)

lemma float_ulp_int32_min: "float_ulp 2147483648 = 256"
  by (simp add: float_ulp_double float_ulp_small del: float_ulp.simps)

lemma static_cast_float_int32_max: "static_cast_float 2147483647 = 2147483648"
  by (simp add: static_cast_float_def float_ulp_int32_max RoundHalfToEven_def del: float_ulp.simps)

lemma static_cast_float_int32_min: "static_cast_float (- 2147483648) = - 2147483648"
  by (simp add: static_cast_float_def float_ulp_int32_min RoundHalfToEven_def del: float_ulp.simps)

lemma GetQminQmax_float_cases:
  assumes "GetQminQmax static_cast_float dt = Inr (qmin, qmax)"
  shows "(qmin, qmax) \<in> {(- 128, 127), (0, 255), (- 32768, 32767), (0, 65535),
           (- 2147483648, 2147483648)}"
  using assms
  by (auto simp: GetQminQmax_def static_cast_float_small static_cast_float_int32_max
        static_cast_float_int32_min split: if_splits)

lemma GetQminQmax_float_int:
  assumes "GetQminQmax static_cast_float dt = Inr (qmin, qmax)"
  shows "\<exists>a b. qmin = of_int a \<and> qmax = of_int b \<and> a \<le> 0 \<and> 0 < b"
proof -
  have "qmin = of_int \<lfloor>qmin\<rfloor> \<and> qmax = of_int \<lfloor>qmax\<rfloor> \<and> \<lfloor>qmin\<rfloor> \<le> 0 \<and> 0 < \<lfloor>qmax\<rfloor>"
    using GetQminQmax_float_cases [OF assms] by auto
  then show ?thesis by blast
qed

lemma RoundHalfToEven_ge_floor: "of_int \<lfloor>x\<rfloor> \<le> RoundHalfToEven x"
  by (simp add: RoundHalfToEven_def Let_def)

lemma RoundHalfToEven_le_ceiling: "RoundHalfToEven x \<le> of_int \<lceil>x\<rceil>"
  unfolding RoundHalfToEven_def Let_def
  by (auto simp: ceiling_altdef)

lemma roundf_0: "roundf 0 = 0" by (simp add: roundf_def)

text \<open>
  The scale by which \<open>GetQuantParams\<close> divides is positive, so the quotient \<open>rmin / scale\<close>
  of the model is the quotient of the source.
\<close>

lemma CheckMinMax_cases:
  assumes "CheckMinMax rmin0 rmax0 = (rmin1, rmax1)"
  shows "rmin1 \<le> 0 \<and> 0 \<le> rmax1 \<and> rmin1 + 0.0001 \<le> rmax1"
  using assms by (auto simp: CheckMinMax_def Let_def max_def min_def split: if_splits)

lemma GetQuantParams_scale_pos:
  assumes "GetQuantParams ub rmin0 rmax0 dt symmetric = Inr (scale, zero_point)"
  shows "0 < scale"
proof -
  obtain rmin1 rmax1 where c: "CheckMinMax rmin0 rmax0 = (rmin1, rmax1)"
    by (cases "CheckMinMax rmin0 rmax0")
  from CheckMinMax_cases [OF c] have r: "rmin1 \<le> 0" "0 \<le> rmax1" "rmin1 < rmax1" by simp_all
  from assms c obtain qmin qmax where q: "GetQminQmax static_cast_float dt = Inr (qmin, qmax)"
    by (cases "GetQminQmax static_cast_float dt") (auto simp: GetQuantParams_def Let_def)
  from GetQminQmax_float_int [OF q] have "0 < qmax - qmin" by auto
  moreover from r have "0 < max \<bar>rmax1\<bar> \<bar>rmin1\<bar> - (- max \<bar>rmax1\<bar> \<bar>rmin1\<bar>)" by simp
  moreover have "scale = ((if symmetric then max \<bar>rmax1\<bar> \<bar>rmin1\<bar> else rmax1)
                   - (if symmetric then - max \<bar>rmax1\<bar> \<bar>rmin1\<bar> else rmin1)) / (qmax - qmin)"
    using assms by (simp add: GetQuantParams_def c q Let_def)
  ultimately show ?thesis using r(3) by (simp split: if_splits)
qed

text \<open>
  Claim C5 as stated fails: a range that includes zero but is narrower than \<open>0.0001\<close>
  is widened, so \<open>CheckMinMax\<close> is not the identity on \<open>(0, 0)\<close>.
\<close>

theorem CheckMinMax_noop_counterexample:
  "CheckMinMax 0 0 = (0, 0.0001) \<and> CheckMinMax 0 0 \<noteq> (0, 0)"
  by (simp add: CheckMinMax_def)

text \<open>
  Claim C5, amended. A range with \<open>rmin \<le> 0 \<le> rmax\<close> that already spans \<open>0.0001\<close> is
  returned unchanged; and for every \<open>rmin > 0\<close> the returned range starts at \<open>0\<close> and
  ends at or above \<open>0\<close>.
\<close>

theorem CheckMinMax_zero_inclusion:
  "(rmin \<le> 0 \<and> 0 \<le> rmax \<and> rmin + 0.0001 \<le> rmax \<longrightarrow> CheckMinMax rmin rmax = (rmin, rmax))
   \<and> (0 < rmin \<longrightarrow> fst (CheckMinMax rmin rmax) = 0 \<and> 0 \<le> snd (CheckMinMax rmin rmax))"
  by (auto simp: CheckMinMax_def Let_def max_def min_def)

theorem CheckMinMax_zero_inclusion_witness:
  "((-1::real) \<le> 0 \<and> (0::real) \<le> 2 \<and> (-1::real) + 0.0001 \<le> 2 \<and> CheckMinMax (-1) 2 = (-1, 2))
   \<and> ((0::real) < 3 \<and> fst (CheckMinMax 3 1) = 0 \<and> 0 \<le> snd (CheckMinMax 3 1))"
  using CheckMinMax_zero_inclusion [of "-1" 2] CheckMinMax_zero_inclusion [of 3 1]
  by simp

lemma static_cast_int32_0: "static_cast_int32 ub 0 = 0"
  by (simp add: static_cast_int32_def trunc_def)

text \<open>
  Claim C10. For every input range and every target type that \<open>GetQminQmax\<close> supports,
  \<open>GetQuantParams\<close> in symmetric mode succeeds and returns the zero-point \<open>0\<close>, with the
  scale of the mirrored range.
\<close>

theorem GetQuantParams_symmetric_zero_point:
  assumes "GetQminQmax static_cast_float dt = Inr (qmin, qmax)"
  shows "GetQuantParams ub rmin rmax dt True =
           Inr (2 * max \<bar>snd (CheckMinMax rmin rmax)\<bar> \<bar>fst (CheckMinMax rmin rmax)\<bar> / (qmax - qmin), 0)"
proof -
  from assms GetQminQmax_float_int obtain a b where
    ab: "qmin = of_int a" "qmax = of_int b" "a \<le> 0" "0 < b" by blast
  then have "Saturate qmax qmin 0 = 0"
    by (simp add: Saturate_def)
  then show ?thesis
    by (simp add: GetQuantParams_def assms roundf_0 RoundHalfToEven_def static_cast_int32_0
          wrap_int32_def Let_def split: prod.splits)
qed

theorem GetQuantParams_symmetric_zero_point_witness:
  "GetQminQmax static_cast_float QNN_DATATYPE_SFIXED_POINT_8 = Inr (- 128, 127)
   \<and> GetQuantParams 0 (- 1) 2 QNN_DATATYPE_SFIXED_POINT_8 True = Inr (4 / 255, 0)"
proof -
  have h: "GetQminQmax static_cast_float QNN_DATATYPE_SFIXED_POINT_8 = Inr (- 128, 127)"
    by (simp add: GetQminQmax_def static_cast_float_small)
  show ?thesis
    using h GetQuantParams_symmetric_zero_point [OF h, of 0 "- 1" 2]
    by (simp add: CheckMinMax_def)
qed

section \<open>Properties of the 4-bit block codec\<close>

lemma dequant_loop_stop:
  "\<not> i < block_size \<Longrightarrow> dequant_loop block_size main_blob scale zp k_idx K dst_off i dst = Some dst"
  by (subst dequant_loop.simps) simp

lemma dequant_loop_step:
  assumes "i < block_size" "i div 2 < length main_blob"
    and "k_idx + int i < K \<Longrightarrow> dst_off + i < length dst"
    and "k_idx + int i + 1 < K \<Longrightarrow> dst_off + (i + 1) < length dst"
  shows "dequant_loop block_size main_blob scale zp k_idx K dst_off i dst =
         dequant_loop block_size main_blob scale zp k_idx K dst_off (i + 2)
           (let b = main_blob ! (i div 2);
                dst1 = (if k_idx + int i < K
                        then dst[dst_off + i := scale * (real (unat (b AND 0xF)) - real (unat zp))]
                        else dst)
            in if k_idx + int i + 1 < K
               then dst1[dst_off + (i + 1) := scale * (real (unat (drop_bit 4 b)) - real (unat zp))]
               else dst1)"
  using assms
  by (subst dequant_loop.simps) (simp add: load_def store_def Let_def del: dequant_loop.simps)

lemma dequant_loop_result:
  assumes "even block_size" "length main_blob = block_size div 2" "even i"
    and "\<forall>j. i \<le> j \<and> j < block_size \<and> k_idx + int j < K \<longrightarrow> dst_off + j < length dst"
  shows "\<exists>dst'. dequant_loop block_size main_blob scale zp k_idx K dst_off i dst = Some dst'
           \<and> length dst' = length dst
           \<and> (\<forall>p<length dst. dst' ! p =
                 (if dst_off + i \<le> p \<and> p - dst_off < block_size \<and> k_idx + int (p - dst_off) < K
                  then scale * (real (unat (nibble main_blob (p - dst_off))) - real (unat zp))
                  else dst ! p))"
  using assms(3,4)
proof (induction "block_size - i" arbitrary: i dst rule: less_induct)
  case less
  show ?case
  proof (cases "i < block_size")
    case False
    then show ?thesis
      by (auto simp: dequant_loop_stop simp del: dequant_loop.simps)
  next
    case True
    define b where "b = main_blob ! (i div 2)"
    define v0 where "v0 = scale * (real (unat (b AND 0xF)) - real (unat zp))"
    define v1 where "v1 = scale * (real (unat (drop_bit 4 b)) - real (unat zp))"
    define dst1 where "dst1 = (if k_idx + int i < K then dst[dst_off + i := v0] else dst)"
    define dst2 where "dst2 = (if k_idx + int i + 1 < K then dst1[dst_off + (i + 1) := v1] else dst1)"
    from True \<open>even i\<close> assms(1) have i1: "i + 1 < block_size"
      by (metis Suc_eq_plus1 Suc_lessI even_Suc)
    from True \<open>even i\<close> assms(1,2) have ib: "i div 2 < length main_blob"
      by (auto elim!: evenE)
    have w0: "k_idx + int i < K \<Longrightarrow> dst_off + i < length dst"
      using less.prems(2) True by simp
    have w1: "k_idx + int i + 1 < K \<Longrightarrow> dst_off + (i + 1) < length dst"
      using less.prems(2) [rule_format, of "i + 1"] i1 by (simp add: add.commute add.left_commute)
    have step: "dequant_loop block_size main_blob scale zp k_idx K dst_off i dst =
                dequant_loop block_size main_blob scale zp k_idx K dst_off (i + 2) dst2"
      using dequant_loop_step [OF True ib w0 w1, where scale = scale and zp = zp]
      by (simp add: dst2_def dst1_def v0_def v1_def b_def Let_def del: dequant_loop.simps)
    have len: "length dst2 = length dst"
      by (simp add: dst2_def dst1_def)
    have n0: "nibble main_blob i = b AND 0xF"
      using \<open>even i\<close> by (simp add: nibble_def b_def)
    have n1: "nibble main_blob (Suc i) = drop_bit 4 b"
      using \<open>even i\<close> by (simp add: nibble_def b_def)
    have IH: "\<exists>dst'. dequant_loop block_size main_blob scale zp k_idx K dst_off (i + 2) dst2 = Some dst'
           \<and> length dst' = length dst2
           \<and> (\<forall>p<length dst2. dst' ! p =
                 (if dst_off + (i + 2) \<le> p \<and> p - dst_off < block_size \<and> k_idx + int (p - dst_off) < K
                  then scale * (real (unat (nibble main_blob (p - dst_off))) - real (unat zp))
                  else dst2 ! p))"
    proof (rule less.hyps)
      show "block_size - (i + 2) < block_size - i" using True by simp
      show "even (i + 2)" using \<open>even i\<close> by simp
      show "\<forall>j. i + 2 \<le> j \<and> j < block_size \<and> k_idx + int j < K \<longrightarrow> dst_off + j < length dst2"
        using less.prems(2) len by simp
    qed
    then obtain dst' where d: "dequant_loop block_size main_blob scale zp k_idx K dst_off (i + 2) dst2 = Some dst'"
      "length dst' = length dst2"
      "\<And>p. p < length dst2 \<Longrightarrow> dst' ! p =
                 (if dst_off + (i + 2) \<le> p \<and> p - dst_off < block_size \<and> k_idx + int (p - dst_off) < K
                  then scale * (real (unat (nibble main_blob (p - dst_off))) - real (unat zp))
                  else dst2 ! p)"
      by blast
    have "dst' ! p =
                 (if dst_off + i \<le> p \<and> p - dst_off < block_size \<and> k_idx + int (p - dst_off) < K
                  then scale * (real (unat (nibble main_blob (p - dst_off))) - real (unat zp))
                  else dst ! p)" if p: "p < length dst" for p
    proof -
      consider "p = dst_off + i" | "p = dst_off + (i + 1)" | "dst_off + (i + 2) \<le> p" | "p < dst_off + i"
        by linarith
      then show ?thesis
      proof cases
        case 1
        then show ?thesis
          using d(3) [of p] p len True w1
          by (simp add: dst2_def dst1_def n0 v0_def)
      next
        case 2
        then show ?thesis
          using d(3) [of p] p len i1
          by (simp add: dst2_def dst1_def n1 v1_def)
      next
        case 3
        then show ?thesis
          using d(3) [of p] p len
          by (simp add: dst2_def dst1_def)
      next
        case 4
        then show ?thesis
          using d(3) [of p] p len
          by (simp add: dst2_def dst1_def)
      qed
    qed
    with step d(1,2) len show ?thesis
      by (simp del: dequant_loop.simps)
  qed
qed

lemma dequant_zp_result:
  assumes "block_size mod 8 = 0" "length main_blob = block_size div 2"
    and "\<forall>i<block_size. k_idx + int i < K \<longrightarrow> dst_off + i < length dst"
  shows "\<exists>dst'. dequant_zp block_size main_blob dst dst_off scale zp k_idx K = Some dst'
           \<and> length dst' = length dst
           \<and> (\<forall>p<length dst. dst' ! p =
                 (if dst_off \<le> p \<and> p - dst_off < block_size \<and> k_idx + int (p - dst_off) < K
                  then scale * (real (unat (nibble main_blob (p - dst_off))) - real (unat zp))
                  else dst ! p))"
proof -
  from assms(1) have ev: "even block_size" by presburger
  have "\<forall>j. 0 \<le> j \<and> j < block_size \<and> k_idx + int j < K \<longrightarrow> dst_off + j < length dst"
    using assms(3) by simp
  from dequant_loop_result [OF ev assms(2) _ this, of scale zp]
  show ?thesis by (simp add: dequant_zp_def del: dequant_loop.simps)
qed

text \<open>
  Claim C7. Given a buffer that holds every valid element of the block, \<open>dequant\<close>
  returns normally (no access outside the buffer or the block), writes element \<open>i\<close> of
  the block to \<open>dst[i]\<close> for exactly the \<open>i < block_size\<close> with \<open>k_idx + i < K\<close>, and
  leaves every other position of the buffer as it was.
\<close>

theorem dequant_zp_frame:
  assumes "block_size mod 8 = 0" "length main_blob = block_size div 2"
    and "\<forall>i<block_size. k_idx + int i < K \<longrightarrow> dst_off + i < length dst"
  shows "\<exists>dst'. dequant_zp block_size main_blob dst dst_off scale zp k_idx K = Some dst'
           \<and> length dst' = length dst
           \<and> (\<forall>p<length dst. dst' ! p =
                 (if dst_off \<le> p \<and> p - dst_off < block_size \<and> k_idx + int (p - dst_off) < K
                  then scale * (real (unat (nibble main_blob (p - dst_off))) - real (unat zp))
                  else dst ! p))"
  using assms by (rule dequant_zp_result)

text \<open>
  The boundary block of the specification: \<open>block_size = 8\<close>, \<open>K = 11\<close>, the block at
  \<open>k_idx = 8\<close> writing into an 11-element buffer at offset 8.
\<close>

theorem dequant_zp_frame_witness:
  "(8::nat) mod 8 = 0 \<and> length [0x21, 0x43, 0x65, 0x87 :: u8] = 8 div 2
   \<and> length [100, 100, 100, 100, 100, 100, 100, 100, 100, 100, 100 :: real] = 11
   \<and> dequant_zp 8 [0x21, 0x43, 0x65, 0x87]
        [100, 100, 100, 100, 100, 100, 100, 100, 100, 100, 100] 8 1 8 8 11
      = Some [100, 100, 100, 100, 100, 100, 100, 100, - 7, - 6, - 5]"
  using dequant_zp_frame [of 8 "[0x21, 0x43, 0x65, 0x87]" 8 11 8
      "[100, 100, 100, 100, 100, 100, 100, 100, 100, 100, 100]" 1 8]
  by (simp add: dequant_zp_def load_def store_def)

lemma pack_loop_stop: "\<not> kk < klen \<Longrightarrow> pack_loop vi0 vi1 klen kk main_blob = Some main_blob"
  by (subst pack_loop.simps) simp

lemma pack_loop_step:
  assumes "kk < klen" "kk div 2 < length main_blob"
  shows "pack_loop vi0 vi1 klen kk main_blob =
         pack_loop vi0 vi1 klen (kk + 2) (main_blob[kk div 2 := vi0 kk OR push_bit 4 (vi1 kk)])"
  using assms
  by (subst pack_loop.simps) (simp add: store_def del: pack_loop.simps)

lemma pack_loop_result:
  assumes "even kk" "klen \<le> 2 * length main_blob"
  shows "\<exists>blob'. pack_loop vi0 vi1 klen kk main_blob = Some blob'
           \<and> length blob' = length main_blob
           \<and> (\<forall>j<length main_blob. blob' ! j =
                 (if kk \<le> 2 * j \<and> 2 * j < klen then vi0 (2 * j) OR push_bit 4 (vi1 (2 * j))
                  else main_blob ! j))"
  using assms
proof (induction "klen - kk" arbitrary: kk main_blob rule: less_induct)
  case less
  show ?case
  proof (cases "kk < klen")
    case False
    then show ?thesis
      by (auto simp: pack_loop_stop simp del: pack_loop.simps)
  next
    case True
    define blob1 where "blob1 = main_blob[kk div 2 := vi0 kk OR push_bit 4 (vi1 kk)]"
    from True less.prems have ib: "kk div 2 < length main_blob" by (auto elim!: evenE)
    have step: "pack_loop vi0 vi1 klen kk main_blob = pack_loop vi0 vi1 klen (kk + 2) blob1"
      using pack_loop_step [OF True ib] by (simp add: blob1_def del: pack_loop.simps)
    have len: "length blob1 = length main_blob" by (simp add: blob1_def)
    have "\<exists>blob'. pack_loop vi0 vi1 klen (kk + 2) blob1 = Some blob'
           \<and> length blob' = length blob1
           \<and> (\<forall>j<length blob1. blob' ! j =
                 (if kk + 2 \<le> 2 * j \<and> 2 * j < klen then vi0 (2 * j) OR push_bit 4 (vi1 (2 * j))
                  else blob1 ! j))"
    proof (rule less.hyps)
      show "klen - (kk + 2) < klen - kk" using True by simp
      show "even (kk + 2)" using less.prems(1) by simp
      show "klen \<le> 2 * length blob1" using less.prems(2) len by simp
    qed
    then obtain blob' where d: "pack_loop vi0 vi1 klen (kk + 2) blob1 = Some blob'"
      "length blob' = length blob1"
      "\<And>j. j < length blob1 \<Longrightarrow> blob' ! j =
                 (if kk + 2 \<le> 2 * j \<and> 2 * j < klen then vi0 (2 * j) OR push_bit 4 (vi1 (2 * j))
                  else blob1 ! j)"
      by blast
    have "blob' ! j = (if kk \<le> 2 * j \<and> 2 * j < klen then vi0 (2 * j) OR push_bit 4 (vi1 (2 * j))
                  else main_blob ! j)" if j: "j < length main_blob" for j
    proof -
      from less.prems(1) obtain h where h: "kk = 2 * h" by (auto elim!: evenE)
      consider "j = h" | "j < h" | "h < j" by linarith
      then show ?thesis
      proof cases
        case 1
        then show ?thesis using d(3) [of j] j len True h by (simp add: blob1_def)
      next
        case 2
        then show ?thesis using d(3) [of j] j len h by (simp add: blob1_def)
      next
        case 3
        then show ?thesis using d(3) [of j] j len h by (simp add: blob1_def)
      qed
    qed
    with step d(1,2) len show ?thesis
      by (simp del: pack_loop.simps)
  qed
qed

lemma trunc_of_int: "trunc (of_int n) = n"
  by (simp add: trunc_def)

lemma take_bit_nibble:
  fixes a :: u8
  assumes "a \<le> 15"
  shows "take_bit 4 a = a"
proof -
  from assms have "unat a \<le> 15" by (simp add: word_le_nat_alt)
  then have "unat a < 2 ^ 4" by simp
  then have "a < 2 ^ 4" by (simp add: word_less_nat_alt)
  then have "a AND mask 4 = a" by (rule less_mask_eq)
  then show ?thesis by (simp add: take_bit_eq_mask)
qed

lemma low_nibble_pack:
  fixes a b :: u8
  assumes "a \<le> 15"
  shows "(a OR push_bit 4 b) AND 0xF = a"
proof -
  have "(take_bit 4 a OR push_bit 4 b) AND mask 4 = take_bit 4 a"
    by (rule bit_word_eqI) (auto simp: bit_simps)
  then show ?thesis
    by (simp add: take_bit_nibble [OF assms] mask_eq_exp_minus_1)
qed

lemma high_nibble_pack:
  fixes a b :: u8
  assumes "a \<le> 15" "b \<le> 15"
  shows "drop_bit 4 (a OR push_bit 4 b) = b"
proof -
  have "drop_bit 4 (take_bit 4 a OR push_bit 4 (take_bit 4 b)) = take_bit 4 b"
    by (rule bit_word_eqI) (auto simp: bit_simps)
  then show ?thesis
    by (simp add: take_bit_nibble assms)
qed

lemma pack_loop_nibble:
  assumes "klen \<le> 2 * length main_blob" "\<And>kk. vi0 kk \<le> 15" "\<And>kk. vi1 kk \<le> 15"
  shows "\<exists>blob'. pack_loop vi0 vi1 klen 0 main_blob = Some blob'
           \<and> length blob' = length main_blob
           \<and> (\<forall>j<length main_blob. klen \<le> 2 * j \<longrightarrow> blob' ! j = main_blob ! j)
           \<and> (\<forall>i. 2 * (i div 2) < klen \<longrightarrow>
                 nibble blob' i = (if even i then vi0 i else vi1 (i - 1)))"
proof -
  from pack_loop_result [of 0 klen main_blob vi0 vi1] assms(1)
  obtain blob' where b: "pack_loop vi0 vi1 klen 0 main_blob = Some blob'"
    "length blob' = length main_blob"
    "\<And>j. j < length main_blob \<Longrightarrow> blob' ! j =
            (if 2 * j < klen then vi0 (2 * j) OR push_bit 4 (vi1 (2 * j)) else main_blob ! j)"
    by auto
  have "nibble blob' i = (if even i then vi0 i else vi1 (i - 1))" if i: "2 * (i div 2) < klen" for i
  proof -
    from i assms(1) have j: "i div 2 < length main_blob" by linarith
    have e: "blob' ! (i div 2) = vi0 (2 * (i div 2)) OR push_bit 4 (vi1 (2 * (i div 2)))"
      using b(3) [OF j] i by simp
    show ?thesis
    proof (cases "even i")
      case True
      then have "2 * (i div 2) = i" by simp
      with True e show ?thesis
        by (simp add: nibble_def low_nibble_pack assms(2))
    next
      case False
      then have i1: "2 * (i div 2) = i - 1" by (auto elim!: oddE)
      have "nibble blob' i = drop_bit 4 (blob' ! (i div 2))"
        using False by (simp add: nibble_def)
      also have "\<dots> = drop_bit 4 (vi0 (i - 1) OR push_bit 4 (vi1 (i - 1)))"
        by (simp only: e i1)
      also have "\<dots> = vi1 (i - 1)"
        by (rule high_nibble_pack) (rule assms(2), rule assms(3))
      finally show ?thesis using False by simp
    qed
  qed
  with b show ?thesis by auto
qed

section \<open>Properties of binary32 rounding\<close>

text \<open>
  The search for the spacing skips ahead while the magnitude is above the range of the
  current spacing; the lemmas below evaluate it on a numeral in a few steps.
\<close>

lemma ulp_search_skip:
  assumes "0 < u" "k \<le> n" "k = 0 \<or> 16777216 * (u * 2 ^ (k - 1)) \<le> a"
  shows "ulp_search n u a = ulp_search (n - k) (u * 2 ^ k) a"
  using assms
proof (induction k arbitrary: n u)
  case 0
  then show ?case by simp
next
  case (Suc k)
  then obtain m where n: "n = Suc m" by (cases n) auto
  from Suc.prems have a: "16777216 * (u * 2 ^ k) \<le> a" by simp
  have "u * 1 \<le> u * 2 ^ k" using Suc.prems(1) by (intro mult_left_mono) simp_all
  with a have "\<not> a < 16777216 * u" by simp
  then have "ulp_search n u a = ulp_search m (2 * u) a" by (simp add: n)
  also have "\<dots> = ulp_search (m - k) (2 * u * 2 ^ k) a"
  proof (rule Suc.IH)
    show "0 < 2 * u" using Suc.prems(1) by simp
    show "k \<le> m" using Suc.prems(2) n by simp
    show "k = 0 \<or> 16777216 * (2 * u * 2 ^ (k - 1)) \<le> a"
    proof (cases k)
      case 0
      then show ?thesis by simp
    next
      case (Suc k')
      with a show ?thesis by simp
    qed
  qed
  finally show ?case by (simp add: n mult.assoc mult.left_commute)
qed

lemma ulp_search_stop: "a < 16777216 * u \<Longrightarrow> ulp_search (numeral m) u a = u"
  by (simp add: numeral_eq_Suc)

lemma ulp_search_skip64:
  "0 < u \<Longrightarrow> 16777216 * (u * 9223372036854775808) \<le> a \<Longrightarrow> 64 \<le> (numeral m :: nat) \<Longrightarrow>
   ulp_search (numeral m) u a = ulp_search (numeral m - 64) (u * 18446744073709551616) a"
  using ulp_search_skip [of u 64 "numeral m" a] by simp

lemma ulp_search_skip8:
  "0 < u \<Longrightarrow> 16777216 * (u * 128) \<le> a \<Longrightarrow> a < 16777216 * (u * 9223372036854775808)
   \<Longrightarrow> 8 \<le> (numeral m :: nat) \<Longrightarrow>
   ulp_search (numeral m) u a = ulp_search (numeral m - 8) (u * 256) a"
  using ulp_search_skip [of u 8 "numeral m" a] by simp

lemma ulp_search_skip1:
  "16777216 * u \<le> a \<Longrightarrow> a < 16777216 * (u * 128) \<Longrightarrow>
   ulp_search (numeral m) u a = ulp_search (pred_numeral m) (u * 2) a"
  by (simp add: numeral_eq_Suc mult.commute)

lemmas f32_eval = f32_round_def fl32_def f32_ulp_def ulp_search_stop ulp_search_skip64
  ulp_search_skip8 ulp_search_skip1 RoundHalfToEven_def Let_def

text \<open>
  The spacing found is a power of two times \<open>2^-149\<close>, at most \<open>2^-23\<close> of the magnitude
  unless it is the subnormal spacing, and the rounded value is within half of it.
\<close>

lemma ulp_search_props:
  assumes "0 < u"
  shows "\<exists>j\<le>n. ulp_search n u a = u * 2 ^ j
           \<and> (a < 16777216 * (u * 2 ^ j) \<or> j = n)
           \<and> (j = 0 \<or> 16777216 * (u * 2 ^ j) \<le> 2 * a)"
  using assms
proof (induction n arbitrary: u)
  case 0
  then show ?case by simp
next
  case (Suc n)
  show ?case
  proof (cases "a < 16777216 * u")
    case True
    then show ?thesis by (intro exI [of _ 0]) simp
  next
    case False
    from Suc.prems have "0 < 2 * u" by simp
    from Suc.IH [OF this] obtain j where j: "j \<le> n" "ulp_search n (2 * u) a = 2 * u * 2 ^ j"
      "a < 16777216 * (2 * u * 2 ^ j) \<or> j = n"
      "j = 0 \<or> 16777216 * (2 * u * 2 ^ j) \<le> 2 * a" by blast
    have "16777216 * (u * 2 ^ Suc j) \<le> 2 * a"
    proof (cases "j = 0")
      case True
      with False show ?thesis by simp
    next
      case False
      with j(4) have "16777216 * (2 * u * 2 ^ j) \<le> 2 * a" by simp
      then show ?thesis by (simp add: mult.assoc mult.left_commute)
    qed
    with j False show ?thesis
      by (intro exI [of _ "Suc j"]) (auto simp: mult.assoc mult.left_commute)
  qed
qed

lemma f32_ulp_props:
  obtains j where "j \<le> 277" "f32_ulp x = 2 ^ j / 2 ^ 149"
    "\<bar>x\<bar> < 16777216 * f32_ulp x \<or> j = 277"
    "j = 0 \<or> 8388608 * f32_ulp x \<le> \<bar>x\<bar>"
proof -
  have "(0::real) < 1 / 2 ^ 149" by simp
  from ulp_search_props [OF this, of 277 "\<bar>x\<bar>"]
  obtain j where j: "j \<le> 277" "ulp_search 277 (1 / 2 ^ 149) \<bar>x\<bar> = 1 / 2 ^ 149 * 2 ^ j"
    "\<bar>x\<bar> < 16777216 * (1 / 2 ^ 149 * 2 ^ j) \<or> j = 277"
    "j = 0 \<or> 16777216 * (1 / 2 ^ 149 * 2 ^ j) \<le> 2 * \<bar>x\<bar>" by blast
  show ?thesis
  proof (rule that [of j])
    show "j \<le> 277" by (rule j(1))
    show u: "f32_ulp x = 2 ^ j / 2 ^ 149" using j(2) by (simp add: f32_ulp_def)
    show "\<bar>x\<bar> < 16777216 * f32_ulp x \<or> j = 277" using j(3) by (simp add: u)
    show "j = 0 \<or> 8388608 * f32_ulp x \<le> \<bar>x\<bar>" using j(4) by (auto simp: u)
  qed
qed

lemma f32_ulp_pos: "0 < f32_ulp x"
proof (rule f32_ulp_props [of x])
  fix j :: nat
  assume "f32_ulp x = 2 ^ j / 2 ^ 149"
  moreover have "(0::real) < 2 ^ j / 2 ^ 149" by simp
  ultimately show ?thesis by (simp only:)
qed

lemma f32_ulp_ge: "1 / 2 ^ 149 \<le> f32_ulp x"
proof (rule f32_ulp_props [of x])
  fix j :: nat
  assume "f32_ulp x = 2 ^ j / 2 ^ 149"
  moreover have "(1::real) \<le> 2 ^ j" by simp
  ultimately show ?thesis by (simp add: divide_right_mono)
qed

lemma f32_ulp_lower: "f32_ulp x = 1 / 2 ^ 149 \<or> 8388608 * f32_ulp x \<le> \<bar>x\<bar>"
  by (rule f32_ulp_props [of x]) auto

lemma f32_ulp_upper:
  assumes "\<bar>x\<bar> < 2 ^ 152"
  shows "\<bar>x\<bar> < 16777216 * f32_ulp x"
proof (rule f32_ulp_props [of x])
  fix j :: nat
  assume j: "f32_ulp x = 2 ^ j / 2 ^ 149" "\<bar>x\<bar> < 16777216 * f32_ulp x \<or> j = 277"
  show ?thesis
  proof (cases "j = 277")
    case True
    with j(1) have "f32_ulp x = 2 ^ 128" by simp
    with assms show ?thesis by simp
  next
    case False
    with j(2) show ?thesis by simp
  qed
qed

lemma RoundHalfToEven_err: "\<bar>RoundHalfToEven t - t\<bar> \<le> 1 / 2"
proof -
  have "of_int \<lfloor>t\<rfloor> \<le> t" "t < of_int \<lfloor>t\<rfloor> + 1" by linarith+
  then show ?thesis
    unfolding RoundHalfToEven_def Let_def by (auto simp: abs_le_iff)
qed

lemma fl32_err: "\<bar>fl32 x - x\<bar> \<le> f32_ulp x / 2"
proof -
  define u where "u = f32_ulp x"
  have u: "0 < u" unfolding u_def by (rule f32_ulp_pos)
  have "fl32 x - x = u * (RoundHalfToEven (x / u) - x / u)"
    using u by (simp add: fl32_def u_def [symmetric] Let_def algebra_simps)
  then have "\<bar>fl32 x - x\<bar> = u * \<bar>RoundHalfToEven (x / u) - x / u\<bar>"
    using u by (simp add: abs_mult)
  also have "\<dots> \<le> u * (1 / 2)"
    using u RoundHalfToEven_err [of "x / u"] by (intro mult_left_mono) simp_all
  finally show ?thesis by (simp add: u_def)
qed

lemma fl32_rel:
  "\<bar>fl32 x - x\<bar> \<le> \<bar>x\<bar> / 2 ^ 24 + 1 / 2 ^ 150"
proof (cases "f32_ulp x = 1 / 2 ^ 149")
  case True
  have "\<bar>fl32 x - x\<bar> \<le> (1 / 2 ^ 149) / 2"
    using fl32_err [of x] unfolding True .
  also have "\<dots> = 1 / 2 ^ 150" by simp
  also have "\<dots> \<le> \<bar>x\<bar> / 2 ^ 24 + 1 / 2 ^ 150" by simp
  finally show ?thesis .
next
  case False
  with f32_ulp_lower [of x] have "8388608 * f32_ulp x \<le> \<bar>x\<bar>" by blast
  with fl32_err [of x] have "\<bar>fl32 x - x\<bar> \<le> \<bar>x\<bar> / 2 ^ 24" by simp
  also have "\<dots> \<le> \<bar>x\<bar> / 2 ^ 24 + 1 / 2 ^ 150" by simp
  finally show ?thesis .
qed

lemma fl32_rel_normal:
  assumes "1 / 2 ^ 126 \<le> \<bar>x\<bar>"
  shows "\<bar>fl32 x - x\<bar> \<le> \<bar>x\<bar> / 2 ^ 24"
proof (cases "f32_ulp x = 1 / 2 ^ 149")
  case True
  have "\<bar>fl32 x - x\<bar> \<le> (1 / 2 ^ 149) / 2"
    using fl32_err [of x] unfolding True .
  also have "\<dots> = (1 / 2 ^ 126) / 2 ^ 24" by simp
  also have "\<dots> \<le> \<bar>x\<bar> / 2 ^ 24" using assms by (intro divide_right_mono) simp_all
  finally show ?thesis .
next
  case False
  with f32_ulp_lower [of x] have "8388608 * f32_ulp x \<le> \<bar>x\<bar>" by blast
  with fl32_err [of x] show ?thesis by simp
qed

lemma fl32_0: "fl32 0 = 0"
  by (simp add: fl32_def RoundHalfToEven_def)

lemma RoundHalfToEven_nonneg: "0 \<le> t \<Longrightarrow> 0 \<le> RoundHalfToEven t"
  using RoundHalfToEven_ge_floor [of t] by (simp add: order_trans [of 0 "of_int \<lfloor>t\<rfloor>"])

lemma RoundHalfToEven_nonpos: "t \<le> 0 \<Longrightarrow> RoundHalfToEven t \<le> 0"
proof -
  assume "t \<le> 0"
  then have "\<lceil>t\<rceil> \<le> 0" by (simp add: ceiling_le_iff)
  then have "real_of_int \<lceil>t\<rceil> \<le> 0" by simp
  with RoundHalfToEven_le_ceiling [of t] show ?thesis by linarith
qed

lemma fl32_nonneg: "0 \<le> x \<Longrightarrow> 0 \<le> fl32 x"
  using f32_ulp_pos [of x]
  by (simp add: fl32_def Let_def RoundHalfToEven_nonneg)

lemma fl32_nonpos: "x \<le> 0 \<Longrightarrow> fl32 x \<le> 0"
  using f32_ulp_pos [of x]
  by (simp add: fl32_def Let_def mult_nonneg_nonpos RoundHalfToEven_nonpos divide_nonpos_pos)

lemma f32_round_fin:
  assumes "\<bar>x\<bar> \<le> 2 ^ 127"
  shows "f32_round x = Fin (fl32 x)"
proof -
  from fl32_rel [of x] have "\<bar>fl32 x\<bar> \<le> \<bar>x\<bar> + \<bar>x\<bar> / 2 ^ 24 + 1 / 2 ^ 150" by linarith
  with assms have "\<bar>fl32 x\<bar> < 2 ^ 128" by simp
  then show ?thesis by (simp add: f32_round_def)
qed

lemma fl32_of_int:
  assumes "\<bar>n\<bar> < 16777216"
  shows "fl32 (of_int n) = of_int n"
proof (rule f32_ulp_props [of "of_int n"])
  fix j :: nat
  assume j: "f32_ulp (real_of_int n) = 2 ^ j / 2 ^ 149"
    "j = 0 \<or> 8388608 * f32_ulp (real_of_int n) \<le> \<bar>real_of_int n\<bar>"
  have "j \<le> 149"
  proof (rule ccontr)
    assume "\<not> j \<le> 149"
    then have "150 \<le> j" by simp
    then have "(2::real) ^ 150 \<le> 2 ^ j" by (intro power_increasing) simp_all
    then have "2 \<le> f32_ulp (real_of_int n)" by (simp add: j(1) le_divide_eq)
    moreover from \<open>\<not> j \<le> 149\<close> j(2) have "8388608 * f32_ulp (real_of_int n) \<le> \<bar>real_of_int n\<bar>"
      by auto
    moreover from assms have "\<bar>real_of_int n\<bar> < 16777216" by linarith
    ultimately show False by linarith
  qed
  then obtain k where k: "149 = j + k" by (metis le_Suc_ex)
  have e: "(2::real) ^ 149 = 2 ^ j * 2 ^ k" unfolding k by (rule power_add)
  have "real_of_int n / f32_ulp (real_of_int n) = of_int (n * 2 ^ k)"
    unfolding j(1) e by simp
  then have "RoundHalfToEven (real_of_int n / f32_ulp (real_of_int n)) =
             real_of_int n / f32_ulp (real_of_int n)"
    by (simp only: RoundHalfToEven_of_int)
  then show ?thesis
    using f32_ulp_pos [of "of_int n"] by (simp add: fl32_def Let_def)
qed

section \<open>Properties of the quantization parameters in binary32\<close>

text \<open>
  Claim C3 as stated fails for the unsigned 32-bit fixed-point type: it has no branch
  in \<open>GetQminQmax\<close>, which reports it as not supported yet.
\<close>

theorem GetQminQmax_unsigned32_counterexample:
  "GetQminQmax id QNN_DATATYPE_UFIXED_POINT_32 = Inl (NotSupportedYet QNN_DATATYPE_UFIXED_POINT_32)"
  by (simp add: GetQminQmax_def)

text \<open>
  Claim C3, amended. For \<open>T = int\<close> (the instance that \<open>Quantize\<close> calls)
  \<open>GetQminQmax\<close> returns the integer limits of the signed and unsigned 8-bit and 16-bit
  and of the signed 32-bit fixed-point types. For \<open>T = float\<close> (the instance that
  \<open>GetQuantParams\<close> calls) it returns the same limits converted to binary32, which
  changes one of them: the upper limit of the signed 32-bit type becomes
  \<open>2147483648\<close>, one above the largest \<open>int32_t\<close>; this holds for the conversion written
  on integers and for the rounding of the binary32 model. For every other target
  type, whatever the instance, it returns the error and no bound.
\<close>

theorem GetQminQmax_table:
  "GetQminQmax id QNN_DATATYPE_SFIXED_POINT_8 = Inr (- 128, 127)
   \<and> GetQminQmax id QNN_DATATYPE_UFIXED_POINT_8 = Inr (0, 255)
   \<and> GetQminQmax id QNN_DATATYPE_SFIXED_POINT_16 = Inr (- 32768, 32767)
   \<and> GetQminQmax id QNN_DATATYPE_UFIXED_POINT_16 = Inr (0, 65535)
   \<and> GetQminQmax id QNN_DATATYPE_SFIXED_POINT_32 = Inr (- 2147483648, 2147483647)
   \<and> GetQminQmax static_cast_float QNN_DATATYPE_SFIXED_POINT_8 = Inr (- 128, 127)
   \<and> GetQminQmax static_cast_float QNN_DATATYPE_UFIXED_POINT_8 = Inr (0, 255)
   \<and> GetQminQmax static_cast_float QNN_DATATYPE_SFIXED_POINT_16 = Inr (- 32768, 32767)
   \<and> GetQminQmax static_cast_float QNN_DATATYPE_UFIXED_POINT_16 = Inr (0, 65535)
   \<and> GetQminQmax static_cast_float QNN_DATATYPE_SFIXED_POINT_32 = Inr (- 2147483648, 2147483648)
   \<and> GetQminQmax (\<lambda>n. f32_round (of_int n)) QNN_DATATYPE_SFIXED_POINT_32
         = Inr (Fin (- 2147483648), Fin 2147483648)
   \<and> (dt \<notin> set fixed_point_types \<longrightarrow> GetQminQmax cast dt = Inl (NotSupportedYet dt))"
  apply (simp add: GetQminQmax_def fixed_point_types_def static_cast_float_small
        static_cast_float_int32_max static_cast_float_int32_min)
  apply (simp add: f32_eval)
  done

theorem GetQminQmax_table_witness:
  "QNN_DATATYPE_FLOAT_32 \<notin> set fixed_point_types
   \<and> GetQminQmax id QNN_DATATYPE_FLOAT_32 = Inl (NotSupportedYet QNN_DATATYPE_FLOAT_32)"
  using GetQminQmax_table [of QNN_DATATYPE_FLOAT_32 id]
  by (simp add: fixed_point_types_def)

text \<open>
  Claim C6 fails in the code. \<open>Quantize\<close> converts the rounded value to \<open>int\<close> before it
  saturates. For the value \<open>4294967296.0\<close> with scale \<open>1\<close>, zero-point \<open>0\<close> and the unsigned
  8-bit type, the rounded value does not fit in \<open>int\<close>, the conversion is undefined, and
  the output is the saturation of whatever the conversion produced: with the x86
  conversion result \<open>INT_MIN\<close> it is \<open>0\<close>, the lower bound, for a value far above the
  range. The saturation of \<open>round(value / scale - zero_point)\<close> is \<open>255\<close>, as for the
  value \<open>300\<close>, which fits.
\<close>

theorem Quantize_far_above:
  "Quantize ub 4294967296 1 0 QNN_DATATYPE_UFIXED_POINT_8 = Inr (Saturate 255 0 ub)
   \<and> Quantize (- 2147483648) 4294967296 1 0 QNN_DATATYPE_UFIXED_POINT_8 = Inr 0
   \<and> Quantize ub 300 1 0 QNN_DATATYPE_UFIXED_POINT_8 = Inr 255"
  by (simp add: Quantize_def GetQminQmax_def roundf_def trunc_def static_cast_int32_def
        Saturate_def)

lemma f32_literal_0001: "f32_round 0.0001 = Fin (13743895 / 2 ^ 37)"
  by (simp add: f32_eval)

text \<open>
  Claim C4 fails in the code. For \<open>rmin = - 2^-38\<close> and \<open>rmax = 0\<close> the sum
  \<open>rmin + 0.0001f\<close> lies halfway between two binary32 values and is rounded down to
  \<open>13743894 / 2^37\<close>. The returned range \<open>(- 2^-38, 13743894 / 2^37)\<close> is narrower than
  \<open>0.0001f = 13743895 / 2^37\<close>, both when the difference is computed in binary32 and
  when it is taken exactly. For \<open>rmin = rmax = 100000\<close> the sum is absorbed,
  \<open>rmin + 0.0001f = rmin\<close>, and only the inclusion of zero widens the range.
\<close>

theorem CheckMinMax_f32_below_minimum:
  "CheckMinMax_f32 (Fin (- (1 / 2 ^ 38))) (Fin 0) = (Fin (- (1 / 2 ^ 38)), Fin (13743894 / 2 ^ 37))
   \<and> f32_sub (Fin (13743894 / 2 ^ 37)) (Fin (- (1 / 2 ^ 38))) = Fin (13743894 / 2 ^ 37)
   \<and> f32_round 0.0001 = Fin (13743895 / 2 ^ 37)
   \<and> (13743894 / 2 ^ 37 - (- (1 / 2 ^ 38)) :: real) < 13743895 / 2 ^ 37
   \<and> CheckMinMax_f32 (Fin 100000) (Fin 100000) = (Fin 0, Fin 100000)"
  by (simp add: CheckMinMax_f32_def f32_max_def f32_min_def f32_sub_def f32_eval)

text \<open>
  Claim C2 fails in the code for the signed 32-bit type. The upper bound converted to
  \<open>float\<close> is \<open>2^31\<close>. For the asymmetric range \<open>(0, 1)\<close> the saturated and rounded
  zero-point is \<open>- 2^31\<close>, whose negation \<open>0 - zero_point\<close> overflows \<open>int32_t\<close>: the value
  returned is \<open>- 2147483648\<close> again, not its negation. For the asymmetric range
  \<open>(- 1, 0)\<close> the saturated zero-point is the bound \<open>2^31\<close>, which does not fit in
  \<open>int32_t\<close>: the conversion is undefined and the value returned is the negation of
  whatever it produced.
\<close>

theorem GetQuantParams_f32_int32_overflow:
  "GetQuantParams_f32 ub (Fin 0) (Fin 1) QNN_DATATYPE_SFIXED_POINT_32 False
     = Inr (Fin (1 / 2 ^ 32), - 2147483648)
   \<and> GetQuantParams_f32 ub (Fin (- 1)) (Fin 0) QNN_DATATYPE_SFIXED_POINT_32 False
     = Inr (Fin (1 / 2 ^ 32), wrap_int32 (- ub))"
  apply (simp add: GetQuantParams_f32_def GetQminQmax_def)
  apply (simp add: CheckMinMax_f32_def f32_max_def f32_min_def
        f32_sub_def Saturate_f32_def static_cast_int32_def trunc_def wrap_int32_def f32_eval)
  done

text \<open>
  For comparison, the unsigned 8-bit type on the range \<open>(- 1, 1)\<close>: the zero-point that
  is saturated and rounded is \<open>0 - (- 1) / scale\<close>, just below \<open>127.5\<close> after the two
  roundings, and the value returned is its rounding negated.
\<close>

lemma GetQuantParams_f32_uint8:
  "GetQuantParams_f32 ub (Fin (- 1)) (Fin 1) QNN_DATATYPE_UFIXED_POINT_8 False
     = Inr (Fin (8421505 / 2 ^ 30), - 127)"
  apply (simp add: GetQuantParams_f32_def GetQminQmax_def)
  apply (simp add: CheckMinMax_f32_def f32_max_def f32_min_def
        f32_sub_def Saturate_f32_def static_cast_int32_def trunc_def wrap_int32_def f32_eval)
  done

section \<open>Properties of the block codec in binary32\<close>

lemma f32_round_0: "f32_round 0 = Fin 0"
  by (simp add: f32_round_def fl32_0)

lemma f32_round_not_NaN: "f32_round x \<noteq> NaN"
  by (simp add: f32_round_def Let_def)

lemma f32_round_of_int:
  assumes "\<bar>n\<bar> < 16777216"
  shows "f32_round (of_int n) = Fin (of_int n)"
proof -
  from assms have "real_of_int \<bar>n\<bar> < 16777216" by simp
  then have "\<bar>real_of_int n\<bar> \<le> 2 ^ 127" by simp
  then show ?thesis by (simp only: f32_round_fin fl32_of_int [OF assms])
qed

lemma f32_round_half: "f32_round (17 / 2) = Fin (17 / 2)"
  by (simp add: f32_eval)

lemma f32_max_Fin: "f32_max (Fin a) (Fin b) = Fin (max a b)"
  by (simp add: f32_max_def max_def)

lemma f32_min_Fin: "f32_min (Fin a) (Fin b) = Fin (min a b)"
  by (auto simp: f32_min_def min_def)

lemma f32_add_Fin_D: "f32_add x y = Fin r \<Longrightarrow> \<exists>a b. x = Fin a \<and> y = Fin b"
  by (cases x; cases y) simp_all

lemma f32_sub_Fin_D: "f32_sub x y = Fin r \<Longrightarrow> \<exists>a b. x = Fin a \<and> y = Fin b"
  by (cases x; cases y) (simp_all add: f32_sub_def)

lemma f32_div_Fin_D: "b \<noteq> 0 \<Longrightarrow> f32_div x (Fin b) = Fin r \<Longrightarrow> \<exists>a. x = Fin a"
  by (cases x) (auto simp: f32_signed_inf_def split: if_splits)

lemma f32_mul_zero: "f32_mul v (Fin 0) = Fin 0 \<or> f32_mul v (Fin 0) = NaN"
  by (cases v) (simp_all add: f32_round_0)

lemma clamp_finite: "\<exists>c. f32_min (Fin 15) (f32_max (Fin 0) x) = Fin c \<and> 0 \<le> c \<and> c \<le> 15"
  by (cases x) (auto simp: f32_min_def f32_max_def)

lemma clamp_nibble_Fin: "clamp_nibble (Fin t) = static_cast_uint8 (min 15 (max 0 t))"
  by (simp add: clamp_nibble_def f32_max_Fin f32_min_Fin)

lemma clamp_nibble_NaN: "clamp_nibble NaN = 0"
  by (simp add: clamp_nibble_def f32_max_def f32_min_def static_cast_uint8_def trunc_def)

lemma clamp_nibble_PInf: "clamp_nibble PInf = 15"
  by (simp add: clamp_nibble_def f32_max_def f32_min_def static_cast_uint8_def trunc_def)

lemma clamp_nibble_NInf: "clamp_nibble NInf = 0"
  by (simp add: clamp_nibble_def f32_max_def f32_min_def static_cast_uint8_def trunc_def)

lemma trunc_nibble: "0 \<le> trunc (min 15 (max 0 x)) \<and> trunc (min 15 (max 0 x)) \<le> 15"
  by (auto simp: trunc_def min_def max_def le_floor_iff floor_le_iff)

lemma unat_clamp_nibble: "int (unat (clamp_nibble (Fin x))) = trunc (min 15 (max 0 x))"
proof -
  from trunc_nibble [of x] have "0 \<le> trunc (min 15 (max 0 x))" "trunc (min 15 (max 0 x)) < 256"
    by linarith+
  then show ?thesis
    unfolding clamp_nibble_Fin static_cast_uint8_def
    by (simp add: unat_eq_nat_uint uint_word_of_int take_bit_eq_mod)
qed

lemma clamp_nibble_le: "clamp_nibble x \<le> 15"
proof (cases x)
  case (Fin t)
  have "unat (clamp_nibble (Fin t)) \<le> 15"
    using unat_clamp_nibble [of t] trunc_nibble [of t] by linarith
  then show ?thesis by (simp add: word_le_nat_alt Fin)
qed (simp_all add: clamp_nibble_NaN clamp_nibble_PInf clamp_nibble_NInf)

lemma clamp_nibble_0: "clamp_nibble (Fin 0) = 0"
  by (simp add: clamp_nibble_Fin static_cast_uint8_def trunc_def)

lemma clamp_nibble_half: "clamp_nibble (Fin (17 / 2)) = 8"
  by (simp add: clamp_nibble_Fin static_cast_uint8_def trunc_def)

lemma clamp_nibble_unat:
  fixes z :: u8
  assumes "z \<le> 15"
  shows "clamp_nibble (Fin (real (unat z))) = z"
proof -
  define n where "n = unat z"
  from assms have "n \<le> 15" by (simp add: word_le_nat_alt n_def)
  then have "min 15 (max 0 (real n)) = real_of_int (int n)" by (simp add: min_def)
  then have "clamp_nibble (Fin (real n)) = word_of_int (int n)"
    unfolding clamp_nibble_Fin static_cast_uint8_def by (simp only: trunc_of_int)
  also have "\<dots> = z" by (simp add: n_def)
  finally show ?thesis by (simp only: n_def)
qed

text \<open>The zero-point conversion of the asymmetric \<open>quant\<close> is defined unless its argument is a NaN.\<close>

lemma zero_point_defined:
  assumes "zpf \<noteq> NaN"
  shows "\<exists>zp. (if f32_less zpf (Fin 0) then Some 0
               else if f32_less (Fin 15) zpf then Some 15
               else static_cast_uint8_f32 (f32_roundf zpf)) = Some zp"
proof (cases zpf)
  case (Fin z)
  show ?thesis
  proof (cases "z < 0 \<or> 15 < z")
    case True
    then show ?thesis by (auto simp: Fin)
  next
    case False
    then have "0 \<le> roundf z" "roundf z \<le> 16"
      by (auto simp: roundf_def le_floor_iff floor_le_iff)
    then have "0 \<le> trunc (roundf z)" "trunc (roundf z) \<le> 255"
      by (auto simp: trunc_def le_floor_iff floor_le_iff)
    with False show ?thesis by (simp add: Fin)
  qed
qed (use assms in simp_all)

lemma zero_point_le:
  assumes "(if f32_less zpf (Fin 0) then Some 0
            else if f32_less (Fin 15) zpf then Some 15
            else static_cast_uint8_f32 (f32_roundf zpf)) = Some (zp :: u8)"
  shows "zp \<le> 15"
proof (cases zpf)
  case (Fin z)
  show ?thesis
  proof (cases "z < 0 \<or> 15 < z")
    case True
    with assms show ?thesis by (auto simp: Fin split: if_splits)
  next
    case False
    then have r: "roundf z = of_int \<lfloor>z + 1 / 2\<rfloor>" "0 \<le> \<lfloor>z + 1 / 2\<rfloor>" "\<lfloor>z + 1 / 2\<rfloor> \<le> 15"
      by (auto simp: roundf_def le_floor_iff floor_le_iff)
    from assms False have "zp = word_of_int (trunc (roundf z))"
      by (simp add: Fin split: if_splits)
    then have "zp = word_of_int \<lfloor>z + 1 / 2\<rfloor>" by (simp only: r(1) trunc_of_int)
    moreover have "unat (word_of_int \<lfloor>z + 1 / 2\<rfloor> :: u8) = nat \<lfloor>z + 1 / 2\<rfloor>"
      using r(2,3) by (simp add: unat_eq_nat_uint uint_word_of_int take_bit_eq_mod)
    moreover have "nat \<lfloor>z + 1 / 2\<rfloor> \<le> 15" using r(2,3) by linarith
    ultimately have "unat zp \<le> 15" by (simp only:)
    then show ?thesis by (simp add: word_le_nat_alt)
  qed
qed (use assms in \<open>simp_all split: if_splits\<close>)

lemma size_t_of_int32_nat: "0 \<le> n \<Longrightarrow> size_t_of_int32 n = nat n"
  by (simp add: size_t_of_int32_def)

lemma klen_nat:
  assumes "k_idx \<le> K"
  shows "size_t_of_int32 (min (int block_size) (K - k_idx)) = nat (min (int block_size) (K - k_idx))"
  using assms by (simp add: size_t_of_int32_nat)

lemma pack_quant_nibble:
  assumes "even block_size" "length main_blob = block_size div 2" "k_idx \<le> K"
    and "klen = nat (min (int block_size) (K - k_idx))"
    and "\<And>kk. vi0 kk = clamp_nibble (q (src (N * int kk)))"
    and "\<And>kk. kk + 1 < klen \<Longrightarrow> vi1 kk = clamp_nibble (q (src (N * int (kk + 1))))"
    and "\<And>kk. \<not> kk + 1 < klen \<Longrightarrow> vi1 kk = clamp_nibble pad"
  shows "\<exists>blob'. pack_loop vi0 vi1 klen 0 main_blob = Some blob'
           \<and> length blob' = length main_blob
           \<and> (\<forall>j<length main_blob. klen \<le> 2 * j \<longrightarrow> blob' ! j = main_blob ! j)
           \<and> (\<forall>i<klen. nibble blob' i = clamp_nibble (q (src (N * int i))))
           \<and> (odd klen \<longrightarrow> nibble blob' klen = clamp_nibble pad)"
proof -
  from assms(1,2,4) have le: "klen \<le> 2 * length main_blob" by (auto elim!: evenE)
  have v0: "vi0 kk \<le> 15" for kk by (simp add: assms(5) clamp_nibble_le)
  have v1: "vi1 kk \<le> 15" for kk
    by (cases "kk + 1 < klen") (simp_all add: assms(6,7) clamp_nibble_le)
  from pack_loop_nibble [of klen main_blob vi0 vi1, OF le v0 v1]
  obtain blob' where b: "pack_loop vi0 vi1 klen 0 main_blob = Some blob'"
    "length blob' = length main_blob"
    "\<forall>j<length main_blob. klen \<le> 2 * j \<longrightarrow> blob' ! j = main_blob ! j"
    "\<And>i. 2 * (i div 2) < klen \<Longrightarrow> nibble blob' i = (if even i then vi0 i else vi1 (i - 1))"
    by blast
  have "nibble blob' i = clamp_nibble (q (src (N * int i)))" if i: "i < klen" for i
  proof -
    from i have "2 * (i div 2) < klen" by linarith
    from b(4) [OF this] have n: "nibble blob' i = (if even i then vi0 i else vi1 (i - 1))" .
    show ?thesis
    proof (cases "even i")
      case True
      with n show ?thesis by (simp add: assms(5))
    next
      case False
      then have "i - 1 + 1 = i" by (auto elim!: oddE)
      with i assms(6) [of "i - 1"] n False show ?thesis by simp
    qed
  qed
  moreover have "nibble blob' klen = clamp_nibble pad" if o: "odd klen"
  proof -
    from o have "2 * (klen div 2) < klen" by (auto elim!: oddE)
    from b(4) [OF this] o have n: "nibble blob' klen = vi1 (klen - 1)" by simp
    from o have "\<not> klen - 1 + 1 < klen" by (auto elim!: oddE)
    from assms(7) [OF this] n show ?thesis by simp
  qed
  ultimately show ?thesis using b(1,2,3) by blast
qed

text \<open>
  The asymmetric \<open>quant\<close> as the packing loop applied to the scale and the zero-point
  computed before it; it returns exactly when the zero-point conversion is defined.
\<close>

lemma quant_zp_result:
  fixes src :: "int \<Rightarrow> f32"
  assumes "even block_size" "length main_blob = block_size div 2" "k_idx \<le> K"
    and mm: "quant_minmax src N (min (int block_size) (K - k_idx)) = (min0, max0)"
  defines "klen \<equiv> nat (min (int block_size) (K - k_idx))"
  defines "scale \<equiv> f32_div (f32_sub (f32_max max0 (Fin 0)) (f32_min min0 (Fin 0))) (Fin 15)"
  defines "zpf \<equiv> (if f32_nonzero scale then f32_sub (Fin 0) (f32_div (f32_min min0 (Fin 0)) scale)
                   else f32_min min0 (Fin 0))"
  defines "zpo \<equiv> (if f32_less zpf (Fin 0) then Some 0
                   else if f32_less (Fin 15) zpf then Some 15
                   else static_cast_uint8_f32 (f32_roundf zpf))"
  shows "(zpo = None \<longrightarrow> quant_zp block_size main_blob src k_idx K N = None)
         \<and> (\<forall>zp. zpo = Some zp \<longrightarrow>
              (\<exists>blob'. quant_zp block_size main_blob src k_idx K N = Some (blob', scale, zp)
                 \<and> length blob' = length main_blob
                 \<and> (\<forall>j<length main_blob. klen \<le> 2 * j \<longrightarrow> blob' ! j = main_blob ! j)
                 \<and> (\<forall>i<klen. nibble blob' i =
                       clamp_nibble (f32_roundf (f32_add (f32_mul (src (N * int i)) (reciprocal scale))
                                                   (Fin (real (unat zp))))))
                 \<and> (odd klen \<longrightarrow> nibble blob' klen =
                       clamp_nibble (f32_roundf (f32_add (f32_mul (Fin 0) (reciprocal scale))
                                                   (Fin (real (unat zp))))))))"
proof -
  define vi0 where "vi0 = (\<lambda>zp :: u8. \<lambda>kk. clamp_nibble
        (f32_roundf (f32_add (f32_mul (src (N * int kk)) (reciprocal scale)) (Fin (real (unat zp))))))"
  define vi1 where "vi1 = (\<lambda>zp :: u8. \<lambda>kk. clamp_nibble
        (f32_roundf (f32_add (f32_mul (if kk + 1 < klen then src (N * int (kk + 1)) else Fin 0)
                                (reciprocal scale)) (Fin (real (unat zp))))))"
  have q: "quant_zp block_size main_blob src k_idx K N =
             Option.bind zpo (\<lambda>zp. Option.bind (pack_loop (vi0 zp) (vi1 zp) klen 0 main_blob)
                                    (\<lambda>blob. Some (blob, scale, zp)))"
    unfolding quant_zp_def mm klen_nat [OF assms(3)] Let_def prod.case
    by (simp only: vi0_def vi1_def klen_def scale_def zpf_def zpo_def)
  have p: "\<exists>blob'. pack_loop (vi0 zp) (vi1 zp) klen 0 main_blob = Some blob'
           \<and> length blob' = length main_blob
           \<and> (\<forall>j<length main_blob. klen \<le> 2 * j \<longrightarrow> blob' ! j = main_blob ! j)
           \<and> (\<forall>i<klen. nibble blob' i =
                 clamp_nibble (f32_roundf (f32_add (f32_mul (src (N * int i)) (reciprocal scale))
                                             (Fin (real (unat zp))))))
           \<and> (odd klen \<longrightarrow> nibble blob' klen =
                 clamp_nibble (f32_roundf (f32_add (f32_mul (Fin 0) (reciprocal scale))
                                             (Fin (real (unat zp))))))" for zp
    by (rule pack_quant_nibble [where block_size = block_size and k_idx = k_idx and K = K
          and q = "\<lambda>v. f32_roundf (f32_add (f32_mul v (reciprocal scale)) (Fin (real (unat zp))))"])
       (simp_all add: assms(1,2,3) klen_def vi0_def vi1_def)
  show ?thesis
  proof (intro conjI allI impI)
    assume "zpo = None"
    then show "quant_zp block_size main_blob src k_idx K N = None"
      by (simp add: q del: pack_loop.simps)
  next
    fix zp assume z: "zpo = Some zp"
    from p [of zp] obtain blob' where b: "pack_loop (vi0 zp) (vi1 zp) klen 0 main_blob = Some blob'"
      and r: "length blob' = length main_blob
           \<and> (\<forall>j<length main_blob. klen \<le> 2 * j \<longrightarrow> blob' ! j = main_blob ! j)
           \<and> (\<forall>i<klen. nibble blob' i =
                 clamp_nibble (f32_roundf (f32_add (f32_mul (src (N * int i)) (reciprocal scale))
                                             (Fin (real (unat zp))))))
           \<and> (odd klen \<longrightarrow> nibble blob' klen =
                 clamp_nibble (f32_roundf (f32_add (f32_mul (Fin 0) (reciprocal scale))
                                             (Fin (real (unat zp))))))" by blast
    have "quant_zp block_size main_blob src k_idx K N = Some (blob', scale, zp)"
      by (simp add: q z b del: pack_loop.simps)
    with r show "\<exists>blob'. quant_zp block_size main_blob src k_idx K N = Some (blob', scale, zp)
                 \<and> length blob' = length main_blob
                 \<and> (\<forall>j<length main_blob. klen \<le> 2 * j \<longrightarrow> blob' ! j = main_blob ! j)
                 \<and> (\<forall>i<klen. nibble blob' i =
                       clamp_nibble (f32_roundf (f32_add (f32_mul (src (N * int i)) (reciprocal scale))
                                                   (Fin (real (unat zp))))))
                 \<and> (odd klen \<longrightarrow> nibble blob' klen =
                       clamp_nibble (f32_roundf (f32_add (f32_mul (Fin 0) (reciprocal scale))
                                                   (Fin (real (unat zp))))))" by blast
  qed
qed

lemma quant_result:
  fixes src :: "int \<Rightarrow> f32"
  assumes "even block_size" "length main_blob = block_size div 2" "k_idx \<le> K"
    and am: "quant_amax src N (min (int block_size) (K - k_idx)) = (amax, max0)"
  defines "klen \<equiv> nat (min (int block_size) (K - k_idx))"
  defines "scale \<equiv> f32_div max0 (Fin (- 8))"
  shows "\<exists>blob'. quant block_size main_blob src k_idx K N = Some (blob', scale)
           \<and> length blob' = length main_blob
           \<and> (\<forall>j<length main_blob. klen \<le> 2 * j \<longrightarrow> blob' ! j = main_blob ! j)
           \<and> (\<forall>i<klen. nibble blob' i =
                 clamp_nibble (f32_add (f32_mul (src (N * int i)) (reciprocal scale)) (Fin 8.5)))
           \<and> (odd klen \<longrightarrow> nibble blob' klen = 8)"
proof -
  define vi0 where "vi0 = (\<lambda>kk. clamp_nibble
        (f32_add (f32_mul (src (N * int kk)) (reciprocal scale)) (Fin 8.5)))"
  define vi1 where "vi1 = (\<lambda>kk. clamp_nibble
        (f32_add (if kk + 1 < klen then f32_mul (src (N * int (kk + 1))) (reciprocal scale) else Fin 0)
           (Fin 8.5)))"
  have q: "quant block_size main_blob src k_idx K N =
             Option.bind (pack_loop vi0 vi1 klen 0 main_blob) (\<lambda>blob. Some (blob, scale))"
    unfolding quant_def am klen_nat [OF assms(3)] Let_def prod.case
    by (simp only: vi0_def vi1_def klen_def scale_def)
  have pad: "clamp_nibble (f32_add (Fin 0) (Fin 8.5)) = 8"
    by (simp add: f32_round_half clamp_nibble_half)
  have "\<exists>blob'. pack_loop vi0 vi1 klen 0 main_blob = Some blob'
           \<and> length blob' = length main_blob
           \<and> (\<forall>j<length main_blob. klen \<le> 2 * j \<longrightarrow> blob' ! j = main_blob ! j)
           \<and> (\<forall>i<klen. nibble blob' i =
                 clamp_nibble (f32_add (f32_mul (src (N * int i)) (reciprocal scale)) (Fin 8.5)))
           \<and> (odd klen \<longrightarrow> nibble blob' klen = clamp_nibble (f32_add (Fin 0) (Fin 8.5)))"
    by (rule pack_quant_nibble [where block_size = block_size and k_idx = k_idx and K = K
          and q = "\<lambda>v. f32_add (f32_mul v (reciprocal scale)) (Fin 8.5)"])
       (simp_all add: assms(1,2,3) klen_def vi0_def vi1_def)
  then obtain blob' where b: "pack_loop vi0 vi1 klen 0 main_blob = Some blob'"
    and r: "length blob' = length main_blob
           \<and> (\<forall>j<length main_blob. klen \<le> 2 * j \<longrightarrow> blob' ! j = main_blob ! j)
           \<and> (\<forall>i<klen. nibble blob' i =
                 clamp_nibble (f32_add (f32_mul (src (N * int i)) (reciprocal scale)) (Fin 8.5)))
           \<and> (odd klen \<longrightarrow> nibble blob' klen = clamp_nibble (f32_add (Fin 0) (Fin 8.5)))"
    by blast
  have "quant block_size main_blob src k_idx K N = Some (blob', scale)"
    by (simp add: q b del: pack_loop.simps)
  with r show ?thesis unfolding pad by blast
qed

lemma fold_minmax:
  assumes "\<forall>kk<n. src (N * int kk) = Fin (x kk)"
  shows "\<exists>mn mx. fold (\<lambda>kk (mn, mx).
             let v = src (N * int kk)
             in (if f32_less v mn then v else mn, if f32_less mx v then v else mx))
           [0..<n] (Fin a, Fin b) = (Fin mn, Fin mx)
         \<and> mn \<le> a \<and> b \<le> mx \<and> (\<forall>kk<n. mn \<le> x kk \<and> x kk \<le> mx)
         \<and> (mn = a \<or> (\<exists>kk<n. mn = x kk)) \<and> (mx = b \<or> (\<exists>kk<n. mx = x kk))"
  using assms
proof (induction n)
  case 0
  then show ?case by simp
next
  case (Suc n)
  from Suc.prems have "\<forall>kk<n. src (N * int kk) = Fin (x kk)" by simp
  from Suc.IH [OF this] obtain m1 x1 where f: "fold (\<lambda>kk (mn, mx).
             let v = src (N * int kk)
             in (if f32_less v mn then v else mn, if f32_less mx v then v else mx))
           [0..<n] (Fin a, Fin b) = (Fin m1, Fin x1)"
    and ih: "m1 \<le> a" "b \<le> x1" "\<And>kk. kk < n \<Longrightarrow> m1 \<le> x kk \<and> x kk \<le> x1"
      "m1 = a \<or> (\<exists>kk<n. m1 = x kk)" "x1 = b \<or> (\<exists>kk<n. x1 = x kk)"
    by blast
  from Suc.prems have v: "src (N * int n) = Fin (x n)" by simp
  have s: "fold (\<lambda>kk (mn, mx).
             let v = src (N * int kk)
             in (if f32_less v mn then v else mn, if f32_less mx v then v else mx))
           [0..<Suc n] (Fin a, Fin b) = (Fin (min (x n) m1), Fin (max x1 (x n)))"
    by (auto simp: f [unfolded Let_def] v Let_def min_def max_def)
  have "min (x n) m1 \<le> x kk \<and> x kk \<le> max x1 (x n)" if "kk < Suc n" for kk
  proof (cases "kk = n")
    case True
    then show ?thesis by simp
  next
    case False
    with that have "kk < n" by simp
    from ih(3) [OF this] show ?thesis by (simp add: min_def max_def)
  qed
  moreover have "min (x n) m1 \<le> a" "b \<le> max x1 (x n)" using ih(1,2) by (simp_all add: min_def max_def)
  moreover have "min (x n) m1 = a \<or> (\<exists>kk<Suc n. min (x n) m1 = x kk)"
    using ih(4) by (cases "x n \<le> m1") (auto simp: min_def less_Suc_eq)
  moreover have "max x1 (x n) = b \<or> (\<exists>kk<Suc n. max x1 (x n) = x kk)"
    using ih(5) by (cases "x1 \<le> x n") (auto simp: max_def less_Suc_eq)
  ultimately show ?case using s by blast
qed

lemma quant_minmax_finite:
  assumes "\<forall>kk<max 1 (nat klen). src (N * int kk) = Fin (x kk)"
  shows "\<exists>mn mx. quant_minmax src N klen = (Fin mn, Fin mx)
         \<and> (\<forall>kk<nat klen. mn \<le> x kk \<and> x kk \<le> mx)
         \<and> (\<exists>kk<max 1 (nat klen). mn = x kk) \<and> (\<exists>kk<max 1 (nat klen). mx = x kk)"
proof -
  from assms have 0: "src 0 = Fin (x 0)" by (auto dest: spec [of _ 0])
  from assms have "\<forall>kk<nat klen. src (N * int kk) = Fin (x kk)" by simp
  from fold_minmax [OF this, of "x 0" "x 0"] obtain mn mx where
    f: "quant_minmax src N klen = (Fin mn, Fin mx)"
    and b: "\<forall>kk<nat klen. mn \<le> x kk \<and> x kk \<le> mx"
      "mn = x 0 \<or> (\<exists>kk<nat klen. mn = x kk)" "mx = x 0 \<or> (\<exists>kk<nat klen. mx = x kk)"
    unfolding quant_minmax_def 0 by blast
  from b(2) have "\<exists>kk<max 1 (nat klen). mn = x kk" by (auto simp: less_max_iff_disj)
  moreover from b(3) have "\<exists>kk<max 1 (nat klen). mx = x kk" by (auto simp: less_max_iff_disj)
  ultimately show ?thesis using f b(1) by blast
qed

lemma fold_amax:
  assumes "\<forall>kk<n. src (N * int kk) = Fin (x kk)"
  shows "\<exists>mx. fold (\<lambda>kk (amax, mx).
             let v = src (N * int kk)
             in if f32_less amax (f32_abs v) then (f32_abs v, v) else (amax, mx))
           [0..<n] (Fin 0, Fin 0) = (Fin \<bar>mx\<bar>, Fin mx)
         \<and> (\<forall>kk<n. \<bar>x kk\<bar> \<le> \<bar>mx\<bar>) \<and> (mx = 0 \<or> (\<exists>kk<n. mx = x kk))"
  using assms
proof (induction n)
  case 0
  then show ?case by simp
next
  case (Suc n)
  from Suc.prems have "\<forall>kk<n. src (N * int kk) = Fin (x kk)" by simp
  from Suc.IH [OF this] obtain x1 where f: "fold (\<lambda>kk (amax, mx).
             let v = src (N * int kk)
             in if f32_less amax (f32_abs v) then (f32_abs v, v) else (amax, mx))
           [0..<n] (Fin 0, Fin 0) = (Fin \<bar>x1\<bar>, Fin x1)"
    and ih: "\<And>kk. kk < n \<Longrightarrow> \<bar>x kk\<bar> \<le> \<bar>x1\<bar>" "x1 = 0 \<or> (\<exists>kk<n. x1 = x kk)"
    by blast
  from Suc.prems have v: "src (N * int n) = Fin (x n)" by simp
  define m where "m = (if \<bar>x1\<bar> < \<bar>x n\<bar> then x n else x1)"
  have s: "fold (\<lambda>kk (amax, mx).
             let v = src (N * int kk)
             in if f32_less amax (f32_abs v) then (f32_abs v, v) else (amax, mx))
           [0..<Suc n] (Fin 0, Fin 0) = (Fin \<bar>m\<bar>, Fin m)"
    by (auto simp: f [unfolded Let_def] v Let_def m_def)
  have "\<bar>x kk\<bar> \<le> \<bar>m\<bar>" if "kk < Suc n" for kk
  proof (cases "kk = n")
    case True
    then show ?thesis by (simp add: m_def)
  next
    case False
    with that have "kk < n" by simp
    from ih(1) [OF this] show ?thesis by (simp add: m_def)
  qed
  moreover have "m = 0 \<or> (\<exists>kk<Suc n. m = x kk)"
    using ih(2) by (auto simp: m_def less_Suc_eq)
  ultimately show ?case using s by blast
qed

lemma quant_amax_finite:
  assumes "\<forall>kk<nat klen. src (N * int kk) = Fin (x kk)"
  shows "\<exists>mx. quant_amax src N klen = (Fin \<bar>mx\<bar>, Fin mx)
         \<and> (\<forall>kk<nat klen. \<bar>x kk\<bar> \<le> \<bar>mx\<bar>) \<and> (mx = 0 \<or> (\<exists>kk<nat klen. mx = x kk))"
  using fold_amax [OF assms] unfolding quant_amax_def .

text \<open>
  Claim C8. In both \<open>quant\<close> overloads the reciprocal of a zero scale is taken as \<open>0\<close>,
  where the division \<open>1.0f / scale\<close> would give an infinity. Whenever the asymmetric
  overload returns with a computed scale of \<open>0\<close>, the zero-point is \<open>0\<close> and every
  element it packs equals the zero-point. The symmetric overload returns for every
  \<open>k_idx \<le> K\<close>, and when its computed scale is \<open>0\<close> and the valid elements are finite,
  every element it packs is \<open>8\<close>. On a block whose valid elements are all zero both
  overloads return with scale \<open>0\<close>.
\<close>

theorem quant_zero_scale:
  assumes "block_size mod 8 = 0" "length main_blob = block_size div 2" "k_idx \<le> K"
  shows "reciprocal (Fin 0) = Fin 0 \<and> f32_div (Fin 1) (Fin 0) = PInf
    \<and> (\<forall>blob scale zp.
          quant_zp block_size main_blob src k_idx K N = Some (blob, scale, zp) \<and> scale = Fin 0 \<longrightarrow>
          zp = 0 \<and> (\<forall>i. 2 * (i div 2) < nat (min (int block_size) (K - k_idx)) \<longrightarrow>
                        nibble blob i = zp))
    \<and> (\<exists>blob scale. quant block_size main_blob src k_idx K N = Some (blob, scale)
          \<and> (scale = Fin 0
               \<and> (\<forall>kk<nat (min (int block_size) (K - k_idx)). \<exists>v. src (N * int kk) = Fin v) \<longrightarrow>
               (\<forall>i. 2 * (i div 2) < nat (min (int block_size) (K - k_idx)) \<longrightarrow>
                      nibble blob i = 8)))
    \<and> ((\<forall>kk<max 1 (nat (min (int block_size) (K - k_idx))). src (N * int kk) = Fin 0) \<longrightarrow>
          (\<exists>blob. quant_zp block_size main_blob src k_idx K N = Some (blob, Fin 0, 0))
          \<and> (\<exists>blob. quant block_size main_blob src k_idx K N = Some (blob, Fin 0)))"
proof -
  define klen where "klen = nat (min (int block_size) (K - k_idx))"
  from assms(1) have ev: "even block_size" by presburger
  have packed: "i < klen \<or> (odd klen \<and> i = klen)" if "2 * (i div 2) < klen" for i
    using that by (cases "even i"; cases "even klen") (auto elim!: evenE oddE)
  have r0: "reciprocal (Fin 0) = Fin 0" by (simp add: reciprocal_def f32_nonzero_def)
  have d0: "f32_div (Fin 1) (Fin 0) = PInf" by (simp add: f32_signed_inf_def)
  have z0: "clamp_nibble (f32_roundf (f32_add (f32_mul v (Fin 0)) (Fin 0))) = 0" for v
    using f32_mul_zero [of v] by (auto simp: f32_round_0 roundf_0 clamp_nibble_0 clamp_nibble_NaN)
  obtain min0 max0 where mm: "quant_minmax src N (min (int block_size) (K - k_idx)) = (min0, max0)"
    by (cases "quant_minmax src N (min (int block_size) (K - k_idx))")
  define scale0 where
    "scale0 = f32_div (f32_sub (f32_max max0 (Fin 0)) (f32_min min0 (Fin 0))) (Fin 15)"
  define zpf where "zpf = (if f32_nonzero scale0
                   then f32_sub (Fin 0) (f32_div (f32_min min0 (Fin 0)) scale0)
                   else f32_min min0 (Fin 0))"
  define zpo :: "u8 option" where "zpo = (if f32_less zpf (Fin 0) then Some 0
                   else if f32_less (Fin 15) zpf then Some 15
                   else static_cast_uint8_f32 (f32_roundf zpf))"
  note qz = quant_zp_result [OF ev assms(2,3) mm, folded klen_def scale0_def, folded zpf_def,
      folded zpo_def]
  have zp0: "zpo = Some 0" if s: "scale0 = Fin 0"
  proof -
    from s f32_div_Fin_D [of 15 _ 0] obtain r
      where "f32_sub (f32_max max0 (Fin 0)) (f32_min min0 (Fin 0)) = Fin r"
      unfolding scale0_def by fastforce
    from f32_sub_Fin_D [OF this] obtain m where m: "f32_min min0 (Fin 0) = Fin m" by blast
    then have "m \<le> 0" by (cases min0) (auto simp: f32_min_def split: if_splits)
    moreover have "zpf = Fin m" by (simp add: zpf_def s m f32_nonzero_def)
    ultimately show ?thesis by (auto simp: zpo_def roundf_0 trunc_def)
  qed
  have a: "zp = 0 \<and> (\<forall>i. 2 * (i div 2) < klen \<longrightarrow> nibble blob i = zp)"
    if q: "quant_zp block_size main_blob src k_idx K N = Some (blob, scale, zp)"
      and s: "scale = Fin 0" for blob scale zp
  proof -
    from qz q obtain zp' where z: "zpo = Some zp'" by (cases zpo) auto
    with qz obtain blob' where
      b: "quant_zp block_size main_blob src k_idx K N = Some (blob', scale0, zp')"
      "\<And>i. i < klen \<Longrightarrow> nibble blob' i =
         clamp_nibble (f32_roundf (f32_add (f32_mul (src (N * int i)) (reciprocal scale0))
                                     (Fin (real (unat zp')))))"
      "odd klen \<Longrightarrow> nibble blob' klen =
         clamp_nibble (f32_roundf (f32_add (f32_mul (Fin 0) (reciprocal scale0))
                                     (Fin (real (unat zp')))))"
      by blast
    from b(1) q s have e: "blob' = blob" "scale0 = Fin 0" "zp' = zp" by simp_all
    from zp0 [OF e(2)] z e(3) have zz: "zp = 0" by simp
    have "nibble blob i = 0" if "2 * (i div 2) < klen" for i
      using packed [OF that] b(2) [of i] b(3) unfolding e r0 zz
        by (auto simp: z0 f32_round_0 roundf_0 clamp_nibble_0)
    with zz show ?thesis by simp
  qed
  obtain amax mx where am: "quant_amax src N (min (int block_size) (K - k_idx)) = (amax, mx)"
    by (cases "quant_amax src N (min (int block_size) (K - k_idx))")
  from quant_result [OF ev assms(2,3) am, folded klen_def]
  obtain blob2 where b: "quant block_size main_blob src k_idx K N = Some (blob2, f32_div mx (Fin (- 8)))"
    "\<And>i. i < klen \<Longrightarrow> nibble blob2 i =
       clamp_nibble (f32_add (f32_mul (src (N * int i)) (reciprocal (f32_div mx (Fin (- 8))))) (Fin 8.5))"
    "odd klen \<Longrightarrow> nibble blob2 klen = 8"
    by blast
  have bz: "\<forall>i. 2 * (i div 2) < klen \<longrightarrow> nibble blob2 i = 8"
    if s: "f32_div mx (Fin (- 8)) = Fin 0" and fin: "\<forall>kk<klen. \<exists>v. src (N * int kk) = Fin v"
  proof -
    have "nibble blob2 i = 8" if "i < klen" for i
    proof -
      from fin that obtain v where "src (N * int i) = Fin v" by blast
      with b(2) [OF that] show ?thesis
        by (simp add: s r0 f32_round_0 f32_round_half clamp_nibble_half)
    qed
    with b(3) packed show ?thesis by blast
  qed
  have c: "(\<exists>blob. quant_zp block_size main_blob src k_idx K N = Some (blob, Fin 0, 0))
          \<and> (\<exists>blob. quant block_size main_blob src k_idx K N = Some (blob, Fin 0))"
    if z: "\<forall>kk<max 1 klen. src (N * int kk) = Fin 0"
  proof -
    from z have z1: "\<forall>kk<max 1 (nat (min (int block_size) (K - k_idx))). src (N * int kk) = Fin ((\<lambda>kk. 0) kk)"
      by (simp add: klen_def)
    from quant_minmax_finite [OF z1] mm have "min0 = Fin 0" "max0 = Fin 0" by auto
    then have s0: "scale0 = Fin 0"
      by (simp add: scale0_def f32_max_Fin f32_min_Fin f32_sub_def f32_round_0)
    from z have z2: "\<forall>kk<nat (min (int block_size) (K - k_idx)). src (N * int kk) = Fin ((\<lambda>kk. 0) kk)"
      by (simp add: klen_def)
    from quant_amax_finite [OF z2] am have "mx = Fin 0" by auto
    then have "f32_div mx (Fin (- 8)) = Fin 0" by (simp add: f32_round_0)
    with b(1) qz zp0 [OF s0] s0 show ?thesis by auto
  qed
  from r0 d0 a b(1) bz c show ?thesis
    unfolding klen_def by blast
qed

lemma klen_full: "size_t_of_int32 (min (int 8) (8 - 0)) = 8"
  by (simp add: size_t_of_int32_def)

lemma klen_three: "size_t_of_int32 (min (int 8) (3 - 0)) = 3"
  by (simp add: size_t_of_int32_def)

lemma zp_zero: "static_cast_uint8_f32 (Fin (roundf 0)) = Some 0"
  by (simp add: roundf_def trunc_def)

lemma quant_zp_zero_src_full:
  "quant_zp 8 [170, 170, 170, 170] zero_src 0 8 1 = Some ([0, 0, 0, 0], Fin 0, 0)"
proof -
  have mm: "quant_minmax zero_src 1 (min (int 8) (8 - 0)) = (Fin 0, Fin 0)"
    by (simp add: quant_minmax_def zero_src_def eval_nat_numeral Let_def)
  show ?thesis
    unfolding quant_zp_def mm klen_full Let_def prod.case
    apply (simp add: reciprocal_def f32_nonzero_def f32_max_Fin f32_min_Fin f32_sub_def f32_round_0
             zero_src_def roundf_0 trunc_def clamp_nibble_0 del: pack_loop.simps)
    apply (simp add: store_def reciprocal_def f32_nonzero_def f32_round_0
             zero_src_def roundf_0 trunc_def clamp_nibble_0)
    done
qed

lemma quant_zero_src_full:
  "quant 8 [170, 170, 170, 170] zero_src 0 8 1 = Some ([136, 136, 136, 136], Fin 0)"
proof -
  have am: "quant_amax zero_src 1 (min (int 8) (8 - 0)) = (Fin 0, Fin 0)"
    by (simp add: quant_amax_def zero_src_def eval_nat_numeral Let_def)
  show ?thesis
    unfolding quant_def am klen_full Let_def prod.case
    apply (simp add: reciprocal_def f32_nonzero_def f32_round_0 f32_round_half zero_src_def
             clamp_nibble_half del: pack_loop.simps)
    apply (simp add: store_def reciprocal_def f32_nonzero_def f32_round_0 f32_round_half zero_src_def
             clamp_nibble_half)
    done
qed

lemma quant_zp_unit_src_full:
  "quant_zp 8 [170, 170, 170, 170] unit_src 0 8 1
     = Some ([15, 0, 0, 0], Fin (8947849 / 134217728), 0)"
proof -
  have mm: "quant_minmax unit_src 1 (min (int 8) (8 - 0)) = (Fin 0, Fin 1)"
    by (simp add: quant_minmax_def unit_src_def eval_nat_numeral Let_def)
  have s: "f32_div (f32_sub (f32_max (Fin 1) (Fin 0)) (f32_min (Fin 0) (Fin 0))) (Fin 15)
             = Fin (8947849 / 134217728)"
    by (simp add: f32_max_Fin f32_min_Fin f32_sub_def f32_eval)
  have r: "reciprocal (Fin (8947849 / 134217728)) = Fin (15728639 / 1048576)"
    by (simp add: reciprocal_def f32_nonzero_def f32_eval)
  have z: "f32_sub (Fin 0) (f32_div (f32_min (Fin 0) (Fin 0)) (Fin (8947849 / 134217728))) = Fin 0"
    by (simp add: f32_min_Fin f32_sub_def f32_round_0)
  have v1: "clamp_nibble (f32_roundf (f32_add (f32_mul (Fin 1) (Fin (15728639 / 1048576))) (Fin 0))) = 15"
    by (simp add: clamp_nibble_Fin static_cast_uint8_def trunc_def roundf_def f32_eval)
  have v0: "clamp_nibble (f32_roundf (f32_add (f32_mul (Fin 0) (Fin (15728639 / 1048576))) (Fin 0))) = 0"
    by (simp add: f32_round_0 roundf_0 clamp_nibble_0)
  show ?thesis
    unfolding quant_zp_def mm klen_full Let_def prod.case s r z
    apply (simp add: f32_nonzero_def roundf_0 trunc_def del: pack_loop.simps)
    apply (simp add: store_def unit_src_def v0 v1 del: f32_mul.simps f32_add.simps f32_roundf.simps)
    done
qed

text \<open>
  A full block of zeros, and a block whose maximum is \<open>1\<close>: there the scale is not \<open>0\<close>
  and the first element is packed as \<open>15\<close>.
\<close>

theorem quant_zero_scale_witness:
  "(8::nat) mod 8 = 0 \<and> length [170, 170, 170, 170 :: u8] = 8 div 2 \<and> (0::int) \<le> 8
   \<and> quant_zp 8 [170, 170, 170, 170] zero_src 0 8 1 = Some ([0, 0, 0, 0], Fin 0, 0)
   \<and> quant 8 [170, 170, 170, 170] zero_src 0 8 1 = Some ([136, 136, 136, 136], Fin 0)
   \<and> nibble [136, 136, 136, 136] 7 = 8
   \<and> quant_zp 8 [170, 170, 170, 170] unit_src 0 8 1
        = Some ([15, 0, 0, 0], Fin (8947849 / 134217728), 0)"
  using quant_zero_scale [of 8 "[170, 170, 170, 170]" 0 8 zero_src 1]
    quant_zp_zero_src_full quant_zero_src_full quant_zp_unit_src_full
  by (simp add: nibble_def)

lemma f32_div_not_NaN: "x \<noteq> NaN \<Longrightarrow> b \<noteq> 0 \<Longrightarrow> f32_div x (Fin b) \<noteq> NaN"
  by (cases x) (simp_all add: f32_signed_inf_def f32_round_not_NaN)

lemma f32_div_Fin_not_NaN: "y \<noteq> NaN \<Longrightarrow> y \<noteq> Fin 0 \<Longrightarrow> f32_div (Fin a) y \<noteq> NaN"
  by (cases y) (simp_all add: f32_round_not_NaN)

lemma f32_sub_Fin_not_NaN: "y \<noteq> NaN \<Longrightarrow> f32_sub (Fin a) y \<noteq> NaN"
  by (cases y) (simp_all add: f32_sub_def f32_round_not_NaN)

text \<open>On finite data the asymmetric \<open>quant\<close> returns.\<close>

lemma quant_zp_returns:
  assumes "even block_size" "length main_blob = block_size div 2" "k_idx \<le> K"
    and fin: "\<forall>kk<max 1 (nat (min (int block_size) (K - k_idx))). \<exists>v. src (N * int kk) = Fin v"
  shows "\<exists>blob scale zp. quant_zp block_size main_blob src k_idx K N = Some (blob, scale, zp)"
proof -
  from fin obtain x where
    x: "\<forall>kk<max 1 (nat (min (int block_size) (K - k_idx))). src (N * int kk) = Fin (x kk)"
    by metis
  from quant_minmax_finite [OF x] obtain mn mx where
    mm: "quant_minmax src N (min (int block_size) (K - k_idx)) = (Fin mn, Fin mx)" by blast
  define scale0 where
    "scale0 = f32_div (f32_sub (f32_max (Fin mx) (Fin 0)) (f32_min (Fin mn) (Fin 0))) (Fin 15)"
  define zpf where "zpf = (if f32_nonzero scale0
                   then f32_sub (Fin 0) (f32_div (f32_min (Fin mn) (Fin 0)) scale0)
                   else f32_min (Fin mn) (Fin 0))"
  define zpo :: "u8 option" where "zpo = (if f32_less zpf (Fin 0) then Some 0
                   else if f32_less (Fin 15) zpf then Some 15
                   else static_cast_uint8_f32 (f32_roundf zpf))"
  note qz = quant_zp_result [OF assms(1,2,3) mm, folded scale0_def, folded zpf_def,
      folded zpo_def]
  have s: "scale0 \<noteq> NaN"
    unfolding scale0_def f32_max_Fin f32_min_Fin
    by (rule f32_div_not_NaN) (simp_all add: f32_sub_Fin_not_NaN)
  have "zpf \<noteq> NaN"
  proof (cases "f32_nonzero scale0")
    case True
    then have "scale0 \<noteq> Fin 0" by (simp add: f32_nonzero_def)
    with s have "f32_div (Fin (min mn 0)) scale0 \<noteq> NaN" by (rule f32_div_Fin_not_NaN)
    then show ?thesis by (simp add: zpf_def True f32_min_Fin f32_sub_Fin_not_NaN)
  next
    case False
    then show ?thesis by (simp add: zpf_def f32_min_Fin)
  qed
  from zero_point_defined [OF this] obtain zp where "zpo = Some zp"
    unfolding zpo_def by blast
  with qz show ?thesis by blast
qed

lemma roundf_of_nat: "roundf (real n) = real n"
proof -
  have "\<lfloor>real n + 1 / 2\<rfloor> = int n" by linarith
  then show ?thesis by (simp add: roundf_def)
qed

text \<open>
  The padding element of the asymmetric \<open>quant\<close>: \<open>0.f * reciprocal_scale + zp\<close> is the
  zero-point when the reciprocal is finite and a NaN when it is not.
\<close>

lemma pad_nibble:
  fixes zp :: u8
  assumes "zp \<le> 15"
  shows "clamp_nibble (f32_roundf (f32_add (f32_mul (Fin 0) r) (Fin (real (unat zp)))))
         = (case r of Fin c \<Rightarrow> zp | _ \<Rightarrow> 0)"
proof (cases r)
  case (Fin c)
  define n where "n = unat zp"
  from assms have "n \<le> 15" by (simp add: word_le_nat_alt n_def)
  then have "\<bar>int n\<bar> < 16777216" by simp
  from f32_round_of_int [OF this] have "f32_round (real n) = Fin (real n)" by simp
  then have "clamp_nibble (f32_roundf (f32_add (f32_mul (Fin 0) (Fin c)) (Fin (real n))))
             = clamp_nibble (Fin (real n))"
    by (simp add: f32_round_0 roundf_of_nat)
  also have "\<dots> = zp" unfolding n_def by (rule clamp_nibble_unat [OF assms])
  finally show ?thesis by (simp add: Fin n_def)
qed (simp_all add: clamp_nibble_NaN)

text \<open>
  Claim C9 as stated fails: with \<open>block_size = 8\<close> and three valid elements only bytes
  0 and 1 are written; bytes 2 and 3 (elements 4 to 7) still hold their old content
  \<open>0xAA\<close>, not the quantized zero.
\<close>

theorem quant_padding_counterexample:
  "quant_zp 8 [170, 170, 170, 170] zero_src 0 3 1 = Some ([0, 0, 170, 170], Fin 0, 0)
   \<and> quant 8 [170, 170, 170, 170] zero_src 0 3 1 = Some ([136, 136, 170, 170], Fin 0)"
proof -
  have mm: "quant_minmax zero_src 1 (min (int 8) (3 - 0)) = (Fin 0, Fin 0)"
    by (simp add: quant_minmax_def zero_src_def eval_nat_numeral Let_def)
  have a: "quant_zp 8 [170, 170, 170, 170] zero_src 0 3 1 = Some ([0, 0, 170, 170], Fin 0, 0)"
    unfolding quant_zp_def mm klen_three Let_def prod.case
    apply (simp add: reciprocal_def f32_nonzero_def f32_max_Fin f32_min_Fin f32_sub_def f32_round_0
             zero_src_def roundf_0 trunc_def clamp_nibble_0 del: pack_loop.simps)
    apply (simp add: store_def reciprocal_def f32_nonzero_def f32_round_0
             zero_src_def roundf_0 trunc_def clamp_nibble_0)
    done
  have am: "quant_amax zero_src 1 (min (int 8) (3 - 0)) = (Fin 0, Fin 0)"
    by (simp add: quant_amax_def zero_src_def eval_nat_numeral Let_def)
  have b: "quant 8 [170, 170, 170, 170] zero_src 0 3 1 = Some ([136, 136, 170, 170], Fin 0)"
    unfolding quant_def am klen_three Let_def prod.case
    apply (simp add: reciprocal_def f32_nonzero_def f32_round_0 f32_round_half zero_src_def
             clamp_nibble_half del: pack_loop.simps)
    apply (simp add: store_def reciprocal_def f32_nonzero_def f32_round_0 f32_round_half zero_src_def
             clamp_nibble_half)
    done
  from a b show ?thesis by simp
qed

text \<open>
  Claim C9, amended. For a partial block (\<open>klen = K - k_idx < block_size\<close>) \<open>quant\<close>
  writes only the bytes that hold the \<open>klen\<close> valid elements, and every byte of
  \<open>main_blob\<close> from index \<open>(klen + 1) div 2\<close> on keeps its previous content. When \<open>klen\<close>
  is odd, the one padding position \<open>klen\<close> that shares the last written byte is packed
  from a synthesized \<open>0\<close>: in the symmetric overload it is \<open>8\<close>; in the asymmetric
  overload it is the zero-point when \<open>reciprocal_scale\<close> is finite, and \<open>0\<close> when the
  reciprocal of a tiny scale overflowed (then \<open>0 * reciprocal_scale\<close> is a NaN). The
  symmetric overload always returns, the asymmetric one whenever the valid elements
  are finite.
\<close>

theorem quant_partial_block:
  assumes "block_size mod 8 = 0" "length main_blob = block_size div 2"
    and "k_idx \<le> K" "K - k_idx < int block_size"
  shows "(\<forall>blob scale zp. quant_zp block_size main_blob src k_idx K N = Some (blob, scale, zp) \<longrightarrow>
            length blob = length main_blob
            \<and> (\<forall>j<length main_blob. nat (K - k_idx) \<le> 2 * j \<longrightarrow> blob ! j = main_blob ! j)
            \<and> (odd (nat (K - k_idx)) \<longrightarrow>
                 nibble blob (nat (K - k_idx)) = (case reciprocal scale of Fin c \<Rightarrow> zp | _ \<Rightarrow> 0)))
       \<and> ((\<forall>kk<max 1 (nat (K - k_idx)). \<exists>v. src (N * int kk) = Fin v) \<longrightarrow>
            (\<exists>blob scale zp. quant_zp block_size main_blob src k_idx K N = Some (blob, scale, zp)))
       \<and> (\<exists>blob scale. quant block_size main_blob src k_idx K N = Some (blob, scale)
            \<and> length blob = length main_blob
            \<and> (\<forall>j<length main_blob. nat (K - k_idx) \<le> 2 * j \<longrightarrow> blob ! j = main_blob ! j)
            \<and> (odd (nat (K - k_idx)) \<longrightarrow> nibble blob (nat (K - k_idx)) = 8))"
proof -
  from assms(1) have ev: "even block_size" by presburger
  from assms(4) have kl: "min (int block_size) (K - k_idx) = K - k_idx" by simp
  obtain min0 max0 where mm: "quant_minmax src N (min (int block_size) (K - k_idx)) = (min0, max0)"
    by (cases "quant_minmax src N (min (int block_size) (K - k_idx))")
  define scale0 where
    "scale0 = f32_div (f32_sub (f32_max max0 (Fin 0)) (f32_min min0 (Fin 0))) (Fin 15)"
  define zpf where "zpf = (if f32_nonzero scale0
                   then f32_sub (Fin 0) (f32_div (f32_min min0 (Fin 0)) scale0)
                   else f32_min min0 (Fin 0))"
  define zpo :: "u8 option" where "zpo = (if f32_less zpf (Fin 0) then Some 0
                   else if f32_less (Fin 15) zpf then Some 15
                   else static_cast_uint8_f32 (f32_roundf zpf))"
  note qz = quant_zp_result [OF ev assms(2,3) mm, folded scale0_def, folded zpf_def,
      folded zpo_def, unfolded kl]
  have a: "length blob = length main_blob
            \<and> (\<forall>j<length main_blob. nat (K - k_idx) \<le> 2 * j \<longrightarrow> blob ! j = main_blob ! j)
            \<and> (odd (nat (K - k_idx)) \<longrightarrow>
                 nibble blob (nat (K - k_idx)) = (case reciprocal scale of Fin c \<Rightarrow> zp | _ \<Rightarrow> 0))"
    if q: "quant_zp block_size main_blob src k_idx K N = Some (blob, scale, zp)" for blob scale zp
  proof -
    from qz q obtain zp' where z: "zpo = Some zp'" by (cases zpo) auto
    from zero_point_le [OF z [unfolded zpo_def]] have le: "zp' \<le> 15" .
    from qz z obtain blob' where
      b: "quant_zp block_size main_blob src k_idx K N = Some (blob', scale0, zp')"
      "length blob' = length main_blob"
      "\<forall>j<length main_blob. nat (K - k_idx) \<le> 2 * j \<longrightarrow> blob' ! j = main_blob ! j"
      "odd (nat (K - k_idx)) \<longrightarrow> nibble blob' (nat (K - k_idx)) =
         clamp_nibble (f32_roundf (f32_add (f32_mul (Fin 0) (reciprocal scale0))
                                     (Fin (real (unat zp')))))"
      by blast
    from b(1) q have e: "blob' = blob" "scale0 = scale" "zp' = zp" by simp_all
    from le e have le2: "zp \<le> 15" by simp
    from b(2,3,4) show ?thesis unfolding e pad_nibble [OF le2] by blast
  qed
  have r: "\<exists>blob scale zp. quant_zp block_size main_blob src k_idx K N = Some (blob, scale, zp)"
    if "\<forall>kk<max 1 (nat (K - k_idx)). \<exists>v. src (N * int kk) = Fin v"
    by (rule quant_zp_returns [OF ev assms(2,3)]) (simp add: kl that)
  obtain amax mx where am: "quant_amax src N (min (int block_size) (K - k_idx)) = (amax, mx)"
    by (cases "quant_amax src N (min (int block_size) (K - k_idx))")
  from quant_result [OF ev assms(2,3) am]
  have b: "\<exists>blob. quant block_size main_blob src k_idx K N = Some (blob, f32_div mx (Fin (- 8)))
            \<and> length blob = length main_blob
            \<and> (\<forall>j<length main_blob. nat (K - k_idx) \<le> 2 * j \<longrightarrow> blob ! j = main_blob ! j)
            \<and> (odd (nat (K - k_idx)) \<longrightarrow> nibble blob (nat (K - k_idx)) = 8)"
    unfolding kl by blast
  from a r b show ?thesis by blast
qed

lemma quant_zp_unit_src_partial:
  "quant_zp 8 [170, 170, 170, 170] unit_src 0 3 1
     = Some ([15, 0, 170, 170], Fin (8947849 / 134217728), 0)"
proof -
  have mm: "quant_minmax unit_src 1 (min (int 8) (3 - 0)) = (Fin 0, Fin 1)"
    by (simp add: quant_minmax_def unit_src_def eval_nat_numeral Let_def)
  have s: "f32_div (f32_sub (f32_max (Fin 1) (Fin 0)) (f32_min (Fin 0) (Fin 0))) (Fin 15)
             = Fin (8947849 / 134217728)"
    by (simp add: f32_max_Fin f32_min_Fin f32_sub_def f32_eval)
  have r: "reciprocal (Fin (8947849 / 134217728)) = Fin (15728639 / 1048576)"
    by (simp add: reciprocal_def f32_nonzero_def f32_eval)
  have z: "f32_sub (Fin 0) (f32_div (f32_min (Fin 0) (Fin 0)) (Fin (8947849 / 134217728))) = Fin 0"
    by (simp add: f32_min_Fin f32_sub_def f32_round_0)
  have v1: "clamp_nibble (f32_roundf (f32_add (f32_mul (Fin 1) (Fin (15728639 / 1048576))) (Fin 0))) = 15"
    by (simp add: clamp_nibble_Fin static_cast_uint8_def trunc_def roundf_def f32_eval)
  have v0: "clamp_nibble (f32_roundf (f32_add (f32_mul (Fin 0) (Fin (15728639 / 1048576))) (Fin 0))) = 0"
    by (simp add: f32_round_0 roundf_0 clamp_nibble_0)
  show ?thesis
    unfolding quant_zp_def mm klen_three Let_def prod.case s r z
    apply (simp add: f32_nonzero_def roundf_0 trunc_def del: pack_loop.simps)
    apply (simp add: store_def unit_src_def v0 v1 del: f32_mul.simps f32_add.simps f32_roundf.simps)
    done
qed

lemma quant_unit_src_partial:
  "quant 8 [170, 170, 170, 170] unit_src 0 3 1 = Some ([128, 136, 170, 170], Fin (- (1 / 8)))"
proof -
  have am: "quant_amax unit_src 1 (min (int 8) (3 - 0)) = (Fin 1, Fin 1)"
    by (simp add: quant_amax_def unit_src_def eval_nat_numeral Let_def)
  have s: "f32_div (Fin 1) (Fin (- 8)) = Fin (- (1 / 8))"
    by (simp add: f32_eval)
  have r: "reciprocal (Fin (- (1 / 8))) = Fin (- 8)"
    by (simp add: reciprocal_def f32_nonzero_def f32_eval)
  have v1: "clamp_nibble (f32_add (f32_mul (Fin 1) (Fin (- 8))) (Fin (17 / 2))) = 0"
    by (simp add: clamp_nibble_Fin static_cast_uint8_def trunc_def f32_eval)
  have v0: "clamp_nibble (f32_add (f32_mul (Fin 0) (Fin (- 8))) (Fin (17 / 2))) = 8"
    by (simp add: f32_round_0 f32_round_half clamp_nibble_half)
  have p: "clamp_nibble (f32_add (Fin 0) (Fin (17 / 2))) = 8"
    by (simp add: f32_round_half clamp_nibble_half)
  show ?thesis
    unfolding quant_def am klen_three Let_def prod.case s r
    apply (simp add: store_def unit_src_def v0 v1 p del: f32_mul.simps f32_add.simps)
    done
qed

lemma quant_zp_tiny_src_partial:
  "quant_zp 8 [170, 170, 170, 170] tiny_src 0 3 1
     = Some ([240, 0, 170, 170], Fin (17 / 2 ^ 147), 8)"
proof -
  have mm: "quant_minmax tiny_src 1 (min (int 8) (3 - 0)) = (Fin (- (1 / 2 ^ 140)), Fin (1 / 2 ^ 140))"
    by (simp add: quant_minmax_def tiny_src_def eval_nat_numeral Let_def)
  have s: "f32_div (f32_sub (f32_max (Fin (1 / 2 ^ 140)) (Fin 0))
                            (f32_min (Fin (- (1 / 2 ^ 140))) (Fin 0))) (Fin 15)
             = Fin (17 / 2 ^ 147)"
    by (simp add: f32_max_Fin f32_min_Fin f32_sub_def f32_eval)
  have r: "reciprocal (Fin (17 / 2 ^ 147)) = PInf"
    by (simp add: reciprocal_def f32_nonzero_def f32_eval)
  have z: "f32_sub (Fin 0) (f32_div (f32_min (Fin (- (1 / 2 ^ 140))) (Fin 0)) (Fin (17 / 2 ^ 147)))
             = Fin (15790321 / 2097152)"
    by (simp add: f32_min_Fin f32_sub_def f32_eval)
  have zp: "static_cast_uint8_f32 (f32_roundf (Fin (15790321 / 2097152))) = Some 8"
    by (simp add: roundf_def trunc_def)
  show ?thesis
    unfolding quant_zp_def mm klen_three Let_def prod.case s r z
    apply (simp add: f32_nonzero_def zp del: pack_loop.simps f32_roundf.simps static_cast_uint8_f32.simps)
    apply (simp add: store_def tiny_src_def f32_signed_inf_def clamp_nibble_NInf clamp_nibble_PInf
             clamp_nibble_NaN)
    done
qed

text \<open>
  Three valid elements in a block of 8. With the maximum \<open>1\<close> the reciprocal of the
  scale is finite and the padding element \<open>3\<close> is the zero-point \<open>0\<close>; with the values
  \<open>- 2^-140\<close> and \<open>2^-140\<close> the reciprocal overflows and it is \<open>0\<close> while the zero-point is
  \<open>8\<close>.
\<close>

theorem quant_partial_block_witness:
  "(8::nat) mod 8 = 0 \<and> length [170, 170, 170, 170 :: u8] = 8 div 2 \<and> (0::int) \<le> 3
   \<and> (3::int) - 0 < int 8
   \<and> quant_zp 8 [170, 170, 170, 170] unit_src 0 3 1
        = Some ([15, 0, 170, 170], Fin (8947849 / 134217728), 0)
   \<and> reciprocal (Fin (8947849 / 134217728)) = Fin (15728639 / 1048576)
   \<and> nibble [15, 0, 170, 170] 3 = 0
   \<and> quant_zp 8 [170, 170, 170, 170] tiny_src 0 3 1
        = Some ([240, 0, 170, 170], Fin (17 / 2 ^ 147), 8)
   \<and> reciprocal (Fin (17 / 2 ^ 147)) = PInf
   \<and> nibble [240, 0, 170, 170] 3 = 0
   \<and> quant 8 [170, 170, 170, 170] unit_src 0 3 1 = Some ([128, 136, 170, 170], Fin (- (1 / 8)))
   \<and> nibble [128, 136, 170, 170] 3 = 8"
proof -
  have r1: "reciprocal (Fin (8947849 / 134217728)) = Fin (15728639 / 1048576)"
    by (simp add: reciprocal_def f32_nonzero_def f32_eval)
  have r2: "reciprocal (Fin (17 / 2 ^ 147)) = PInf"
    by (simp add: reciprocal_def f32_nonzero_def f32_eval)
  have n: "nibble [15, 0, 170, 170] 3 = 0" "nibble [240, 0, 170, 170] 3 = 0"
    "nibble [128, 136, 170, 170] 3 = 8"
    by (simp_all add: nibble_def)
  from quant_partial_block [of 8 "[170, 170, 170, 170]" 0 3 unit_src 1]
    quant_zp_unit_src_partial quant_unit_src_partial quant_zp_tiny_src_partial r1 r2 n
  show ?thesis by simp
qed

end
